theory Spec2Isabelle
  imports Main
begin

section \<open>The pretty text writer of ion-js (src/IonPrettyTextWriter.ts)\<close>

text \<open>
  The class \<^verbatim>\<open>PrettyTextWriter\<close> extends the text writer of the library. Its methods are
  embedded below, one HOL function per method, in the order of the source file. The
  writer object is a record that every method takes and returns; a \<^verbatim>\<open>throw\<close> is the
  left injection of the result, together with the writer as the throw leaves it (an
  exception of JavaScript undoes nothing that was done before it).
\<close>

subsection \<open>Types and constants of the collaborators\<close>

text \<open>
  Modelled from the spec: the type vocabulary (\<^verbatim>\<open>IonTypes\<close>, file IonTypes.ts, is
  not among the sources). The pretty writer distinguishes only NULL, LIST, SEXP and
  STRUCT; the remaining scalar types are listed for completeness (the names INT and
  STRING carry a suffix, the plain ones being taken in HOL).
\<close>

datatype IonType =
  NULL | BOOL | INT_t | FLOAT | DECIMAL | TIMESTAMP | SYMBOL | STRING_t | CLOB | BLOB
  | LIST | SEXP | STRUCT

text \<open>
  Modelled from the spec: the enumeration \<^verbatim>\<open>State\<close> of IonTextWriter.ts (section 3 of the
  spec: EXPECT_VALUE and EXPECT_STRUCT_FIELD), under the names the source uses.
\<close>

datatype State = VALUE | STRUCT_FIELD

text \<open>
  Modelled from the spec: the container frame (section 3): the type of the container
  (\<open>None\<close> for the top level frame, where the source has a falsy \<^verbatim>\<open>containerType\<close>), the
  state and the flag \<^verbatim>\<open>clean\<close>.
\<close>

record Context =
  state :: State
  clean :: bool
  containerType :: "IonType option"

text \<open>
  Modelled from the spec: the byte constants \<^verbatim>\<open>CharCodes\<close> of IonText.ts (section 6: fixed
  ASCII values). A byte of the sink is a \<^typ>\<open>char\<close>.
\<close>

definition LINE_FEED :: char where "LINE_FEED = CHR 0x0A"
definition SPACE :: char where "SPACE = CHR '' ''"
definition COMMA :: char where "COMMA = CHR '',''"
definition COLON :: char where "COLON = CHR '':''"
definition LEFT_BRACKET :: char where "LEFT_BRACKET = CHR ''[''"
definition RIGHT_BRACKET :: char where "RIGHT_BRACKET = CHR '']''"
definition LEFT_PARENTHESIS :: char where "LEFT_PARENTHESIS = CHR ''(''"
definition RIGHT_PARENTHESIS :: char where "RIGHT_PARENTHESIS = CHR '')''"
definition LEFT_BRACE :: char where "LEFT_BRACE = CHR ''{''"
definition RIGHT_BRACE :: char where "RIGHT_BRACE = CHR ''}''"

text \<open>
  What the source throws: \<^verbatim>\<open>new Error(message)\<close>, and the \<^verbatim>\<open>TypeError\<close> of JavaScript when a
  property of \<^verbatim>\<open>undefined\<close> is read (the current container of an empty stack).
\<close>

datatype error = Error string | TypeError

text \<open>
  The spec (section 7) names the errors of the source by kind: every grammar violation
  is a StructuralError, an unrecognised container type at the closing dispatch is an
  InternalError.
\<close>

definition StructuralError :: "error \<Rightarrow> bool" where
  "StructuralError e \<longleftrightarrow>
     e = Error ''Cannot write field name outside of a struct'' \<or>
     e = Error ''Expecting a struct value'' \<or>
     e = Error ''Expecting a struct field'' \<or>
     e = Error ''Can't step out when not in a container''"

definition InternalError :: "error \<Rightarrow> bool" where
  "InternalError e \<longleftrightarrow> e = Error ''Unexpected container type''"

subsection \<open>The writer object\<close>

text \<open>
  The fields of the object. \<open>indentCount\<close>, \<open>indentSize\<close> and \<open>prettify_depth\<close> are the
  fields of the class; a JavaScript number is an \<^typ>\<open>int\<close>, and \<open>prettify_depth\<close> is
  \<open>None\<close> for \<^verbatim>\<open>Infinity\<close>, its default.

  Modelled from the spec: the fields of the base writer (IonTextWriter.ts is not among
  the sources). \<open>writeable\<close> is the sink, as the bytes appended so far; \<open>containerContext\<close>
  is the stack of frames, the top frame first and the top level frame last;
  \<open>annotations\<close> are the pending annotations; \<open>serializeSymbolToken\<close> and \<open>serializeNullOf\<close>
  are the raw serializers of section 6, as the bytes they emit.
\<close>

record writer =
  writeable :: string
  containerContext :: "Context list"
  annotations :: "string list"
  serializeSymbolToken :: "string \<Rightarrow> string"
  serializeNullOf :: "IonType \<Rightarrow> string"
  indentCount :: int
  indentSize :: int
  prettify_depth :: "int option"

type_synonym result = "(error \<times> writer) + writer"

text \<open>Sequencing of two steps: the second runs when the first did not throw.\<close>

definition andThen :: "result \<Rightarrow> (writer \<Rightarrow> result) \<Rightarrow> result" where
  "andThen r f = (case r of Inl e \<Rightarrow> Inl e | Inr w \<Rightarrow> f w)"

text \<open>The comparison \<^verbatim>\<open>n < prettify_depth\<close> and the number \<^verbatim>\<open>prettify_depth - 1\<close>.\<close>

definition less_number :: "int \<Rightarrow> int option \<Rightarrow> bool" where
  "less_number n d = (case d of None \<Rightarrow> True | Some m \<Rightarrow> n < m)"

definition minus_one :: "int option \<Rightarrow> int option" where
  "minus_one d = (case d of None \<Rightarrow> None | Some m \<Rightarrow> Some (m - 1))"

text \<open>
  Modelled from the spec: the members of the base writer that the pretty writer calls
  (section 6). \<open>Context_new\<close> is the frame that is pushed on entering a container (section
  4.5, step 5; the state of a frame that is not a struct is VALUE, the state in which
  the value path accepts a value). \<open>depth\<close> is 0 at the top level, where the stack holds
  the top level frame alone.
\<close>

definition Context_new :: "IonType option \<Rightarrow> Context" where
  "Context_new myType =
     \<lparr>state = (if myType = Some STRUCT then STRUCT_FIELD else VALUE),
      clean = True, containerType = myType\<rparr>"

definition depth :: "writer \<Rightarrow> int" where
  "depth w = int (length (containerContext w)) - 1"

definition currentContainer :: "writer \<Rightarrow> Context option" where
  "currentContainer w = (case containerContext w of [] \<Rightarrow> None | c # cs \<Rightarrow> Some c)"

definition set_clean :: "bool \<Rightarrow> writer \<Rightarrow> writer" where
  "set_clean b w =
     (case containerContext w of [] \<Rightarrow> w
      | c # cs \<Rightarrow> w\<lparr>containerContext := c\<lparr>clean := b\<rparr> # cs\<rparr>)"

definition set_state :: "State \<Rightarrow> writer \<Rightarrow> writer" where
  "set_state s w =
     (case containerContext w of [] \<Rightarrow> w
      | c # cs \<Rightarrow> w\<lparr>containerContext := c\<lparr>state := s\<rparr> # cs\<rparr>)"

definition writeByte :: "char \<Rightarrow> writer \<Rightarrow> writer" where
  "writeByte b w = w\<lparr>writeable := writeable w @ [b]\<rparr>"

definition writeBytes :: "string \<Rightarrow> writer \<Rightarrow> writer" where
  "writeBytes bs w = w\<lparr>writeable := writeable w @ bs\<rparr>"

definition writeSymbolToken :: "string \<Rightarrow> writer \<Rightarrow> writer" where
  "writeSymbolToken s w = writeBytes (serializeSymbolToken w s) w"

definition annotationBytes :: "writer \<Rightarrow> string" where
  "annotationBytes w = concat (map (\<lambda>a. serializeSymbolToken w a @ '':'' @ '':'') (annotations w))"

definition writeAnnotations :: "writer \<Rightarrow> writer" where
  "writeAnnotations w = (writeBytes (annotationBytes w) w)\<lparr>annotations := []\<rparr>"

definition u_writeNull :: "IonType \<Rightarrow> writer \<Rightarrow> writer" where
  "u_writeNull type w = writeBytes (serializeNullOf w type) w"

definition u_stepIn :: "IonType \<Rightarrow> writer \<Rightarrow> writer" where
  "u_stepIn type w = w\<lparr>containerContext := Context_new (Some type) # containerContext w\<rparr>"

text \<open>
  The constructor: \<^verbatim>\<open>indentCount = 0\<close>, the two configuration values (the defaults of the
  source are \<^verbatim>\<open>indentSize = 2\<close> and \<^verbatim>\<open>prettify_depth = Infinity\<close>), and the state of a new base
  writer: an empty sink, the top level frame, no annotation.
\<close>

definition PrettyTextWriter ::
  "(string \<Rightarrow> string) \<Rightarrow> (IonType \<Rightarrow> string) \<Rightarrow> int \<Rightarrow> int option \<Rightarrow> writer" where
  "PrettyTextWriter symf nulf indent_size prettify =
     \<lparr>writeable = [], containerContext = [Context_new None], annotations = [],
      serializeSymbolToken = symf, serializeNullOf = nulf,
      indentCount = 0, indentSize = indent_size, prettify_depth = prettify\<rparr>"

subsection \<open>The indentation primitives (lines 182 to 196)\<close>

definition writePrettyNewLine :: "int \<Rightarrow> writer \<Rightarrow> writer" where
  "writePrettyNewLine incrementValue w =
     (let w1 = w\<lparr>indentCount := indentCount w + incrementValue\<rparr> in
      if indentSize w1 \<noteq> 0 \<and> indentSize w1 > 0 \<and> less_number (depth w1) (prettify_depth w1)
      then writeByte LINE_FEED w1 else w1)"

text \<open>The \<^verbatim>\<open>for\<close> loop of \<^verbatim>\<open>writePrettyIndent\<close>, from the value \<open>i\<close> of its counter on.\<close>

function indentLoop :: "int \<Rightarrow> writer \<Rightarrow> writer" where
  "indentLoop i w =
     (if i < indentCount w * indentSize w then indentLoop (i + 1) (writeByte SPACE w) else w)"
  by pat_completeness auto
termination
  by (relation "measure (\<lambda>(i, w). nat (indentCount w * indentSize w - i))")
     (auto simp: writeByte_def)

declare indentLoop.simps [simp del]

definition writePrettyIndent :: "int \<Rightarrow> writer \<Rightarrow> writer" where
  "writePrettyIndent incrementValue w =
     (let w1 = w\<lparr>indentCount := indentCount w + incrementValue\<rparr> in
      if indentSize w1 \<noteq> 0 \<and> indentSize w1 > 0 \<and> less_number (depth w1) (prettify_depth w1)
      then indentLoop 0 w1 else w1)"

subsection \<open>Separators and values (lines 141 to 180)\<close>

definition handleSeparator :: "writer \<Rightarrow> result" where
  "handleSeparator w =
     (if depth w = 0 then
        (case currentContainer w of
           None \<Rightarrow> Inl (TypeError, w)
         | Some c \<Rightarrow>
             if clean c then Inr (set_clean False w)
             else Inr (writeByte LINE_FEED w))
      else
        (case currentContainer w of
           None \<Rightarrow> Inl (TypeError, w)
         | Some c \<Rightarrow>
             if clean c then Inr (set_clean False w)
             else
               (case containerType c of
                  Some LIST \<Rightarrow>
                    (let w1 = writeByte COMMA w in
                     if less_number (depth w1) (prettify_depth w1)
                     then Inr (writePrettyNewLine 0 w1) else Inr w1)
                | Some SEXP \<Rightarrow>
                    (let w1 = writeByte SPACE w in
                     if less_number (depth w1) (prettify_depth w1)
                     then Inr (writePrettyNewLine 0 w1) else Inr w1)
                | _ \<Rightarrow> Inr w)))"

definition writePrettyValue :: "writer \<Rightarrow> writer" where
  "writePrettyValue w =
     (if depth w > 0 \<and>
         (case currentContainer w of
            None \<Rightarrow> False
          | Some c \<Rightarrow> containerType c \<noteq> None \<and> containerType c \<noteq> Some STRUCT)
      then writePrettyIndent 0 w else w)"

subsection \<open>The write operations (lines 39 to 139)\<close>

definition writeFieldName :: "string \<Rightarrow> writer \<Rightarrow> result" where
  "writeFieldName fieldName w =
     (case currentContainer w of
        None \<Rightarrow> Inl (TypeError, w)
      | Some c \<Rightarrow>
          if containerType c \<noteq> Some STRUCT
          then Inl (Error ''Cannot write field name outside of a struct'', w)
          else if state c \<noteq> STRUCT_FIELD
          then Inl (Error ''Expecting a struct value'', w)
          else
            (let w1 = (if \<not> clean c then writePrettyNewLine 0 (writeByte COMMA w) else w);
                 w2 = writePrettyIndent 0 w1;
                 w3 = writeSymbolToken fieldName w2;
                 w4 = writeByte COLON w3;
                 w5 = writeByte SPACE w4
             in Inr (set_state VALUE w5)))"

text \<open>
  \<^verbatim>\<open>writeNull\<close>: the argument is \<open>None\<close> when the caller passes \<^verbatim>\<open>undefined\<close> or \<^verbatim>\<open>null\<close>.
\<close>

definition writeNull :: "IonType option \<Rightarrow> writer \<Rightarrow> result" where
  "writeNull type w =
     (let type1 = (case type of None \<Rightarrow> NULL | Some t \<Rightarrow> t) in
      andThen (handleSeparator w) (\<lambda>w1.
        let w2 = writePrettyValue w1;
            w3 = writeAnnotations w2;
            w4 = u_writeNull type1 w3
        in (case currentContainer w4 of
              None \<Rightarrow> Inl (TypeError, w4)
            | Some c \<Rightarrow>
                if containerType c = Some STRUCT then Inr (set_state STRUCT_FIELD w4)
                else Inr w4)))"

definition closingByte :: "IonType option \<Rightarrow> char option" where
  "closingByte t =
     (case t of
        Some LIST \<Rightarrow> Some RIGHT_BRACKET
      | Some SEXP \<Rightarrow> Some RIGHT_PARENTHESIS
      | Some STRUCT \<Rightarrow> Some RIGHT_BRACE
      | _ \<Rightarrow> None)"

text \<open>
  \<^verbatim>\<open>stepOut\<close>: \<^verbatim>\<open>pop\<close> removes the top frame and returns it (\<^verbatim>\<open>undefined\<close> on an empty stack);
  the checks come after it. The local constant \<^verbatim>\<open>currentContainer\<close> of the source is \<open>popped\<close> here.
\<close>

definition stepOut :: "writer \<Rightarrow> result" where
  "stepOut w =
     (case containerContext w of
        [] \<Rightarrow> Inl (Error ''Can't step out when not in a container'', w)
      | popped # rest \<Rightarrow>
          (let w1 = w\<lparr>containerContext := rest\<rparr> in
           if containerType popped = None
           then Inl (Error ''Can't step out when not in a container'', w1)
           else if containerType popped = Some STRUCT \<and> state popped = VALUE
           then Inl (Error ''Expecting a struct value'', w1)
           else
             (let w2 =
                (if less_number (depth w1) (minus_one (prettify_depth w1)) then
                   writePrettyIndent (- 1)
                     (if \<not> clean popped then writePrettyNewLine 0 w1 else w1)
                 else w1)
              in (case closingByte (containerType popped) of
                    Some b \<Rightarrow> Inr (writeByte b w2)
                  | None \<Rightarrow> Inl (Error ''Unexpected container type'', w2)))))"

text \<open>
  \<^verbatim>\<open>_serializeValue\<close>, here \<open>u_serializeValue\<close> (a name cannot begin with an underscore;
  likewise \<open>u_writeNull\<close> and \<open>u_stepIn\<close> above): \<open>value\<close> is \<open>None\<close> for \<^verbatim>\<open>null\<close>; the callback \<open>serialize\<close> is given by the
  bytes it appends to the sink for a value (section 6 of the spec: raw emission of the
  payload bytes).
\<close>

definition u_serializeValue :: "IonType \<Rightarrow> 'a option \<Rightarrow> ('a \<Rightarrow> string) \<Rightarrow> writer \<Rightarrow> result" where
  "u_serializeValue type val serialize w =
     (case currentContainer w of
        None \<Rightarrow> Inl (TypeError, w)
      | Some c0 \<Rightarrow>
          if state c0 = STRUCT_FIELD then Inl (Error ''Expecting a struct field'', w)
          else
            (case val of
               None \<Rightarrow> writeNull (Some type) w
             | Some v \<Rightarrow>
                 andThen (handleSeparator w) (\<lambda>w1.
                   let w2 = writePrettyValue w1;
                       w3 = writeAnnotations w2;
                       w4 = writeBytes (serialize v) w3
                   in (case currentContainer w4 of
                         None \<Rightarrow> Inl (TypeError, w4)
                       | Some c \<Rightarrow>
                           if containerType c = Some STRUCT
                           then Inr (set_state STRUCT_FIELD w4)
                           else Inr w4))))"

definition writeContainer :: "IonType \<Rightarrow> char \<Rightarrow> writer \<Rightarrow> result" where
  "writeContainer type openingCharacter w =
     (case currentContainer w of
        None \<Rightarrow> Inl (TypeError, w)
      | Some c \<Rightarrow>
          (let w0 = (if containerType c = Some STRUCT \<and> state c = VALUE
                     then set_state STRUCT_FIELD w else w)
           in andThen (handleSeparator w0) (\<lambda>w1.
                let w2 = writePrettyValue w1;
                    w3 = writeAnnotations w2;
                    w4 = writeByte openingCharacter w3;
                    w5 = (if less_number (depth w4) (minus_one (prettify_depth w4))
                          then writePrettyNewLine 1 w4 else w4)
                in Inr (u_stepIn type w5))))"

subsection \<open>Sequences of write operations\<close>

text \<open>
  Modelled from the spec: the public write API of section 6, whose entry points are
  members of the base writer. \<open>stepIn\<close> refuses a container while a field name is expected
  (sections 4.1 and 8: a value written while the struct awaits a field name fails with a
  StructuralError; the check and the message are those of \<^verbatim>\<open>_serializeValue\<close>), opens a LIST,
  a SEXP or a STRUCT with its opening delimiter (section 4.5, step 3) and refuses every
  other type, so that no other type reaches the stack; \<open>addAnnotation\<close> makes an annotation
  pending; the generic scalar path takes the value as the text its serializer emits.
\<close>

definition openingByte :: "IonType \<Rightarrow> char option" where
  "openingByte type =
     (case type of
        LIST \<Rightarrow> Some LEFT_BRACKET
      | SEXP \<Rightarrow> Some LEFT_PARENTHESIS
      | STRUCT \<Rightarrow> Some LEFT_BRACE
      | _ \<Rightarrow> None)"

definition stepIn :: "IonType \<Rightarrow> writer \<Rightarrow> result" where
  "stepIn type w =
     (case currentContainer w of
        None \<Rightarrow> Inl (TypeError, w)
      | Some c \<Rightarrow>
          if state c = STRUCT_FIELD then Inl (Error ''Expecting a struct field'', w)
          else
            (case openingByte type of
               Some openingCharacter \<Rightarrow> writeContainer type openingCharacter w
             | None \<Rightarrow> Inl (Error ''Unrecognized container type'', w)))"

definition addAnnotation :: "string \<Rightarrow> writer \<Rightarrow> writer" where
  "addAnnotation a w = w\<lparr>annotations := annotations w @ [a]\<rparr>"

datatype op =
  WriteFieldName string
  | WriteNull "IonType option"
  | WriteValue IonType "string option"
  | AddAnnotation string
  | StepIn IonType
  | StepOut

fun apply_op :: "op \<Rightarrow> writer \<Rightarrow> result" where
  "apply_op (WriteFieldName n) w = writeFieldName n w"
| "apply_op (WriteNull t) w = writeNull t w"
| "apply_op (WriteValue t v) w = u_serializeValue t v id w"
| "apply_op (AddAnnotation a) w = Inr (addAnnotation a w)"
| "apply_op (StepIn t) w = stepIn t w"
| "apply_op StepOut w = stepOut w"

text \<open>A sequence of calls stops at the first one that throws.\<close>

fun run :: "op list \<Rightarrow> writer \<Rightarrow> result" where
  "run [] w = Inr w"
| "run (x # xs) w = andThen (apply_op x w) (run xs)"

text \<open>What a caller observes of a result: the error, or the bytes in the sink.\<close>

definition sink_output :: "result \<Rightarrow> error + string" where
  "sink_output r = (case r of Inl (e, w) \<Rightarrow> Inl e | Inr w \<Rightarrow> Inr (writeable w))"

text \<open>
  A sample pair of raw serializers, for concrete runs: a symbol token is emitted as it
  is, and a null as the text \<^verbatim>\<open>null\<close>.
\<close>

definition plainSymbol :: "string \<Rightarrow> string" where
  "plainSymbol s = s"

definition plainNull :: "IonType \<Rightarrow> string" where
  "plainNull t = ''null''"

subsection \<open>The layout, as bytes\<close>

text \<open>
  Auxiliary notions for the proofs. \<open>pretty_guard\<close> is the condition under which the two
  indentation primitives emit anything; \<open>separatorBytes\<close>, \<open>valueIndentBytes\<close> and
  \<open>valuePrefix\<close> are the bytes that \<^verbatim>\<open>handleSeparator\<close>, \<^verbatim>\<open>writePrettyValue\<close> and the common preamble
  of a value append to the sink; \<open>enterGuard\<close> is the condition of \<^verbatim>\<open>writeContainer\<close> and
  \<^verbatim>\<open>stepOut\<close> on the depth outside the container. \<open>openBelow n d\<close> counts the depths
  from 1 up to \<open>n - 1\<close> that are below the threshold \<open>d\<close>: the open containers of a stack
  of \<open>n\<close> frames that were entered below the threshold. \<open>writer_inv\<close> is what every
  sequence of successful calls maintains, \<open>top_level_inv\<close> adds that the top level frame
  is clean only while no container is open, and \<open>frames_inv\<close> that every frame above the
  top level frame is a list, an s-expression or a struct.
\<close>

definition pretty_guard :: "writer \<Rightarrow> bool" where
  "pretty_guard w \<longleftrightarrow> 0 < indentSize w \<and> less_number (depth w) (prettify_depth w)"

definition indentBytes :: "writer \<Rightarrow> string" where
  "indentBytes w = (if pretty_guard w then replicate (nat (indentCount w * indentSize w)) SPACE else [])"

definition separatorBytes :: "writer \<Rightarrow> string" where
  "separatorBytes w =
     (case containerContext w of
        [] \<Rightarrow> []
      | c # cs \<Rightarrow>
          if clean c then []
          else if cs = [] then [LINE_FEED]
          else (case containerType c of
                  Some LIST \<Rightarrow> COMMA # (if pretty_guard w then [LINE_FEED] else [])
                | Some SEXP \<Rightarrow> SPACE # (if pretty_guard w then [LINE_FEED] else [])
                | _ \<Rightarrow> []))"

definition valueIndentBytes :: "writer \<Rightarrow> string" where
  "valueIndentBytes w =
     (case containerContext w of
        [] \<Rightarrow> []
      | c # cs \<Rightarrow>
          if cs \<noteq> [] \<and> containerType c \<noteq> None \<and> containerType c \<noteq> Some STRUCT
          then indentBytes w else [])"

definition valuePrefix :: "writer \<Rightarrow> string" where
  "valuePrefix w = separatorBytes w @ valueIndentBytes w @ annotationBytes w"

definition enterGuard :: "writer \<Rightarrow> bool" where
  "enterGuard w \<longleftrightarrow> less_number (depth w) (minus_one (prettify_depth w))"

definition openBelow :: "nat \<Rightarrow> int option \<Rightarrow> int" where
  "openBelow n d = int (length (filter (\<lambda>k. less_number (int k) d) [1..<n]))"

definition writer_inv :: "writer \<Rightarrow> bool" where
  "writer_inv w \<longleftrightarrow>
     containerContext w \<noteq> [] \<and> containerType (last (containerContext w)) = None \<and>
     indentCount w = openBelow (length (containerContext w)) (prettify_depth w)"

definition same_config :: "writer \<Rightarrow> writer \<Rightarrow> bool" where
  "same_config w w' \<longleftrightarrow>
     indentSize w' = indentSize w \<and> prettify_depth w' = prettify_depth w \<and>
     serializeSymbolToken w' = serializeSymbolToken w \<and> serializeNullOf w' = serializeNullOf w"

definition top_level_inv :: "writer \<Rightarrow> bool" where
  "top_level_inv w \<longleftrightarrow>
     writer_inv w \<and> (clean (last (containerContext w)) \<longrightarrow> length (containerContext w) = 1)"

definition frames_inv :: "writer \<Rightarrow> bool" where
  "frames_inv w \<longleftrightarrow>
     (\<forall>f \<in> set (butlast (containerContext w)).
        containerType f = Some LIST \<or> containerType f = Some SEXP \<or> containerType f = Some STRUCT)"

subsection \<open>The compact layout\<close>

text \<open>
  The layout that has the mandatory separators only, to compare the writer with.
  \<open>ownBytes\<close> are the bytes of an operation itself: the pending annotations and the
  token, delimiter or field name with its colon and space. \<open>compactSeparator\<close> is the
  separator that precedes a value: none before the first element, a line feed between
  top level values, a comma in a list, a space in an s-expression. \<open>compactBytes\<close> puts
  the separator, or the comma that precedes a field name which is not the first, before
  the bytes of the operation.
\<close>

fun ownBytes :: "op \<Rightarrow> writer \<Rightarrow> string" where
  "ownBytes (WriteFieldName n) w = serializeSymbolToken w n @ [COLON, SPACE]"
| "ownBytes (WriteNull t) w =
     annotationBytes w @ serializeNullOf w (case t of None \<Rightarrow> NULL | Some u \<Rightarrow> u)"
| "ownBytes (WriteValue t v) w =
     annotationBytes w @ (case v of None \<Rightarrow> serializeNullOf w t | Some s \<Rightarrow> s)"
| "ownBytes (AddAnnotation a) w = []"
| "ownBytes (StepIn t) w =
     annotationBytes w @ (case openingByte t of None \<Rightarrow> [] | Some b \<Rightarrow> [b])"
| "ownBytes StepOut w =
     (case currentContainer w of
        None \<Rightarrow> []
      | Some c \<Rightarrow> (case closingByte (containerType c) of None \<Rightarrow> [] | Some b \<Rightarrow> [b]))"

definition compactSeparator :: "writer \<Rightarrow> string" where
  "compactSeparator w =
     (case currentContainer w of
        None \<Rightarrow> []
      | Some c \<Rightarrow>
          if clean c then []
          else if depth w = 0 then [LINE_FEED]
          else (case containerType c of
                  Some LIST \<Rightarrow> [COMMA]
                | Some SEXP \<Rightarrow> [SPACE]
                | _ \<Rightarrow> []))"

fun compactBytes :: "op \<Rightarrow> writer \<Rightarrow> string" where
  "compactBytes (WriteFieldName n) w =
     (case currentContainer w of
        None \<Rightarrow> []
      | Some c \<Rightarrow> if clean c then [] else [COMMA]) @ ownBytes (WriteFieldName n) w"
| "compactBytes (WriteNull t) w = compactSeparator w @ ownBytes (WriteNull t) w"
| "compactBytes (WriteValue t v) w = compactSeparator w @ ownBytes (WriteValue t v) w"
| "compactBytes (AddAnnotation a) w = []"
| "compactBytes (StepIn t) w = compactSeparator w @ ownBytes (StepIn t) w"
| "compactBytes StepOut w = ownBytes StepOut w"

text \<open>The operations that write a value: a scalar, a null, or the opening of a container.\<close>

fun writesValue :: "op \<Rightarrow> bool" where
  "writesValue (WriteNull t) = True"
| "writesValue (WriteValue t v) = True"
| "writesValue (StepIn t) = True"
| "writesValue x = False"

fun opensContainer :: "op \<Rightarrow> bool" where
  "opensContainer (StepIn t) = True"
| "opensContainer x = False"

text \<open>The writer that a result carries, and its top frame when the call succeeded.\<close>

definition the_writer :: "result \<Rightarrow> writer" where
  "the_writer r = (case r of Inl (e, w) \<Rightarrow> w | Inr w \<Rightarrow> w)"

definition top_frame :: "result \<Rightarrow> Context option" where
  "top_frame r = (case r of Inl (e, w) \<Rightarrow> None | Inr w \<Rightarrow> currentContainer w)"

section \<open>Properties of the operations\<close>

subsection \<open>The operations in closed form\<close>

lemma indentLoop_eq:
  "indentLoop i w = w\<lparr>writeable := writeable w @ replicate (nat (indentCount w * indentSize w - i)) SPACE\<rparr>"
proof (induction i w rule: indentLoop.induct)
  case (1 i w)
  let ?n = "indentCount w * indentSize w"
  show ?case
  proof (cases "i < ?n")
    case True
    have n: "replicate (nat (?n - i)) SPACE = SPACE # replicate (nat (?n - (i + 1))) SPACE"
    proof -
      from True have "nat (?n - i) = Suc (nat (?n - (i + 1)))" by linarith
      then show ?thesis by (simp only: replicate_Suc)
    qed
    have "indentLoop i w = indentLoop (i + 1) (writeByte SPACE w)"
      using True by (subst indentLoop.simps) (simp only: if_True)
    also have "\<dots> = (writeByte SPACE w)\<lparr>writeable := writeable (writeByte SPACE w) @
        replicate (nat (indentCount (writeByte SPACE w) * indentSize (writeByte SPACE w) - (i + 1))) SPACE\<rparr>"
      using 1 True by blast
    also have "\<dots> = w\<lparr>writeable := writeable w @ replicate (nat (?n - i)) SPACE\<rparr>"
      by (simp only: n) (simp add: writeByte_def)
    finally show ?thesis .
  next
    case False
    then show ?thesis by (subst indentLoop.simps) simp
  qed
qed

lemma writePrettyNewLine_eq:
  "writePrettyNewLine k w =
     w\<lparr>writeable := writeable w @ (if pretty_guard w then [LINE_FEED] else []),
       indentCount := indentCount w + k\<rparr>"
  by (simp add: writePrettyNewLine_def pretty_guard_def depth_def writeByte_def Let_def)

lemma writePrettyIndent_eq:
  "writePrettyIndent k w =
     w\<lparr>writeable := writeable w @
          (if pretty_guard w then replicate (nat ((indentCount w + k) * indentSize w)) SPACE else []),
       indentCount := indentCount w + k\<rparr>"
  by (simp add: writePrettyIndent_def pretty_guard_def depth_def indentLoop_eq Let_def)

lemma handleSeparator_eq:
  assumes "containerContext w = c # cs"
  shows "handleSeparator w =
     Inr (w\<lparr>writeable := writeable w @ separatorBytes w,
            containerContext := c\<lparr>clean := False\<rparr> # cs\<rparr>)"
  using assms
  by (auto simp: handleSeparator_def separatorBytes_def currentContainer_def depth_def
      set_clean_def writeByte_def writePrettyNewLine_eq pretty_guard_def Let_def
      split: option.splits IonType.splits)

lemma writePrettyValue_eq:
  "writePrettyValue w = w\<lparr>writeable := writeable w @ valueIndentBytes w\<rparr>"
  by (auto simp: writePrettyValue_def valueIndentBytes_def indentBytes_def currentContainer_def
      depth_def writePrettyIndent_eq split: list.splits option.splits)

lemma enterGuard_pretty: "enterGuard w \<Longrightarrow> pretty_guard w \<longleftrightarrow> 0 < indentSize w"
  by (auto simp: enterGuard_def pretty_guard_def less_number_def minus_one_def split: option.splits)

lemmas value_path_defs =
  andThen_def Let_def writePrettyValue_eq writeAnnotations_def writeBytes_def writeByte_def
  u_writeNull_def currentContainer_def set_state_def valuePrefix_def valueIndentBytes_def
  indentBytes_def pretty_guard_def depth_def annotationBytes_def

lemma writeNull_eq:
  assumes "containerContext w = c # cs"
  shows "writeNull t w =
     Inr (w\<lparr>writeable := writeable w @ valuePrefix w @
                serializeNullOf w (case t of None \<Rightarrow> NULL | Some u \<Rightarrow> u),
            containerContext :=
              c\<lparr>clean := False,
                state := (if containerType c = Some STRUCT then STRUCT_FIELD else state c)\<rparr> # cs,
            annotations := []\<rparr>)"
  by (simp add: writeNull_def handleSeparator_eq [OF assms] value_path_defs assms)

lemma serializeValue_eq:
  assumes "containerContext w = c # cs"
  shows "u_serializeValue t v f w =
     (if state c = STRUCT_FIELD then Inl (Error ''Expecting a struct field'', w)
      else Inr (w\<lparr>writeable := writeable w @ valuePrefix w @
                (case v of None \<Rightarrow> serializeNullOf w t | Some x \<Rightarrow> f x),
            containerContext :=
              c\<lparr>clean := False,
                state := (if containerType c = Some STRUCT then STRUCT_FIELD else state c)\<rparr> # cs,
            annotations := []\<rparr>))"
proof (cases v)
  case None
  then show ?thesis
    using assms by (simp add: u_serializeValue_def currentContainer_def writeNull_eq [OF assms])
next
  case (Some x)
  then show ?thesis
    by (simp add: u_serializeValue_def handleSeparator_eq [OF assms] value_path_defs assms)
qed

lemma writeContainer_eq:
  assumes "containerContext w = c # cs"
  shows "writeContainer t ch w =
     Inr (w\<lparr>writeable := writeable w @ valuePrefix w @ [ch] @
                (if enterGuard w \<and> 0 < indentSize w then [LINE_FEED] else []),
            containerContext :=
              Context_new (Some t) #
              c\<lparr>clean := False,
                state := (if containerType c = Some STRUCT then STRUCT_FIELD else state c)\<rparr> # cs,
            annotations := [],
            indentCount := indentCount w + (if enterGuard w then 1 else 0)\<rparr>)"
proof -
  let ?c0 = "c\<lparr>state := (if containerType c = Some STRUCT then STRUCT_FIELD else state c)\<rparr>"
  let ?w0 = "w\<lparr>containerContext := ?c0 # cs\<rparr>"
  have w0: "(if containerType c = Some STRUCT \<and> state c = VALUE then set_state STRUCT_FIELD w else w) = ?w0"
    using assms by (cases "state c") (auto simp: set_state_def)
  have c0: "containerContext ?w0 = ?c0 # cs"
    by simp
  have s: "separatorBytes ?w0 = separatorBytes w"
    using assms by (auto simp: separatorBytes_def pretty_guard_def depth_def)
  have "writeContainer t ch w = andThen (handleSeparator ?w0) (\<lambda>w1.
                let w2 = writePrettyValue w1;
                    w3 = writeAnnotations w2;
                    w4 = writeByte ch w3;
                    w5 = (if less_number (depth w4) (minus_one (prettify_depth w4))
                          then writePrettyNewLine 1 w4 else w4)
                in Inr (u_stepIn t w5))"
    using assms by (simp add: writeContainer_def currentContainer_def Let_def w0)
  also have "\<dots> = Inr (w\<lparr>writeable := writeable w @ valuePrefix w @ [ch] @
                (if enterGuard w \<and> 0 < indentSize w then [LINE_FEED] else []),
            containerContext :=
              Context_new (Some t) #
              c\<lparr>clean := False,
                state := (if containerType c = Some STRUCT then STRUCT_FIELD else state c)\<rparr> # cs,
            annotations := [],
            indentCount := indentCount w + (if enterGuard w then 1 else 0)\<rparr>)"
  proof (cases "enterGuard w")
    case True
    then have "less_number (int (length cs)) (prettify_depth w)"
      using assms by (auto simp: enterGuard_def depth_def less_number_def minus_one_def
          split: option.splits)
    with True show ?thesis
      by (simp add: handleSeparator_eq [OF c0] s value_path_defs writePrettyNewLine_eq
          u_stepIn_def enterGuard_def assms)
  next
    case False
    then show ?thesis
      by (simp add: handleSeparator_eq [OF c0] s value_path_defs writePrettyNewLine_eq
          u_stepIn_def enterGuard_def assms)
  qed
  finally show ?thesis .
qed

lemma writeFieldName_eq:
  assumes "containerContext w = c # cs"
  shows "writeFieldName n w =
     (if containerType c \<noteq> Some STRUCT
      then Inl (Error ''Cannot write field name outside of a struct'', w)
      else if state c \<noteq> STRUCT_FIELD
      then Inl (Error ''Expecting a struct value'', w)
      else Inr (w\<lparr>writeable := writeable w @
                  (if clean c then [] else COMMA # (if pretty_guard w then [LINE_FEED] else [])) @
                  indentBytes w @ serializeSymbolToken w n @ [COLON, SPACE],
                containerContext := c\<lparr>state := VALUE\<rparr> # cs\<rparr>))"
  using assms
  by (simp add: writeFieldName_def currentContainer_def Let_def writePrettyNewLine_eq
      writePrettyIndent_eq writeSymbolToken_def writeBytes_def writeByte_def set_state_def
      indentBytes_def pretty_guard_def depth_def)

lemma stepOut_eq:
  assumes "containerContext w = c # cs"
  shows "stepOut w =
     (if containerType c = None
      then Inl (Error ''Can't step out when not in a container'', w\<lparr>containerContext := cs\<rparr>)
      else if containerType c = Some STRUCT \<and> state c = VALUE
      then Inl (Error ''Expecting a struct value'', w\<lparr>containerContext := cs\<rparr>)
      else
        (let g = less_number (int (length cs) - 1) (minus_one (prettify_depth w));
             w2 = w\<lparr>containerContext := cs,
                    writeable := writeable w @
                      (if g \<and> 0 < indentSize w
                       then (if clean c then [] else [LINE_FEED]) @
                            replicate (nat ((indentCount w - 1) * indentSize w)) SPACE
                       else []),
                    indentCount := indentCount w - (if g then 1 else 0)\<rparr>
         in (case closingByte (containerType c) of
               Some b \<Rightarrow> Inr (w2\<lparr>writeable := writeable w2 @ [b]\<rparr>)
             | None \<Rightarrow> Inl (Error ''Unexpected container type'', w2))))"
  using assms
  by (auto simp: stepOut_def Let_def writePrettyNewLine_eq writePrettyIndent_eq writeByte_def
      pretty_guard_def depth_def less_number_def minus_one_def split: option.splits)

lemma stepIn_eq:
  assumes "containerContext w = c # cs"
  shows "stepIn t w =
     (if state c = STRUCT_FIELD then Inl (Error ''Expecting a struct field'', w)
      else (case openingByte t of
              Some ch \<Rightarrow> writeContainer t ch w
            | None \<Rightarrow> Inl (Error ''Unrecognized container type'', w)))"
  using assms by (simp add: stepIn_def currentContainer_def)

lemma openBelow_Suc:
  "1 \<le> n \<Longrightarrow> openBelow (Suc n) d = openBelow n d + (if less_number (int n) d then 1 else 0)"
  by (simp add: openBelow_def)

lemma openBelow_one: "openBelow (Suc 0) d = 0"
  by (simp add: openBelow_def)

lemma less_minus_one: "less_number k (minus_one d) \<longleftrightarrow> less_number (1 + k) d"
  by (auto simp: less_number_def minus_one_def split: option.splits)

lemma openBelow_Some:
  "1 \<le> n \<Longrightarrow> 0 < d \<Longrightarrow> openBelow n (Some d) = min (int n - 1) (d - 1)"
proof (induction n)
  case 0
  then show ?case by simp
next
  case (Suc n)
  show ?case
  proof (cases "n = 0")
    case True
    with Suc.prems show ?thesis by (simp add: openBelow_one)
  next
    case False
    with Suc show ?thesis
      by (simp add: openBelow_Suc less_number_def)
  qed
qed

lemma openBelow_None: "1 \<le> n \<Longrightarrow> openBelow n None = int n - 1"
  by (simp add: openBelow_def less_number_def)

lemma apply_op_empty:
  assumes "containerContext w = []" and "apply_op x w = Inr w'"
  shows "\<exists>a. x = AddAnnotation a"
  using assms
  by (cases x)
     (auto simp: writeFieldName_def writeNull_def u_serializeValue_def stepIn_def writeContainer_def
        stepOut_def handleSeparator_def currentContainer_def depth_def andThen_def
        split: option.splits if_splits)

lemma apply_op_config:
  assumes "apply_op x w = Inr w'"
  shows "same_config w w'"
proof (cases "containerContext w")
  case Nil
  with assms obtain a where "x = AddAnnotation a" using apply_op_empty by blast
  with assms show ?thesis by (auto simp: addAnnotation_def same_config_def)
next
  case (Cons c cs)
  with assms show ?thesis
    by (cases x)
       (auto simp: writeFieldName_eq writeNull_eq serializeValue_eq stepIn_eq writeContainer_eq
          stepOut_eq addAnnotation_def same_config_def Let_def split: if_splits option.splits)
qed

lemma apply_op_inv:
  assumes "writer_inv w" and "apply_op x w = Inr w'"
  shows "writer_inv w'"
proof -
  from assms(1) obtain c cs where cs: "containerContext w = c # cs"
    by (cases "containerContext w") (auto simp: writer_inv_def)
  show ?thesis
  proof (cases x)
    case (StepIn t)
    with assms cs show ?thesis
      by (auto simp: writer_inv_def stepIn_eq writeContainer_eq enterGuard_def depth_def
          less_minus_one openBelow_Suc split: if_splits option.splits)
  next
    case StepOut
    from assms cs StepOut have ne: "cs \<noteq> []"
      by (auto simp: writer_inv_def stepOut_eq split: if_splits)
    then have len: "1 \<le> length cs" by (cases cs) auto
    from assms cs StepOut ne show ?thesis
      by (auto simp: writer_inv_def stepOut_eq Let_def less_minus_one openBelow_Suc [OF len]
          split: if_splits option.splits)
  qed (use assms cs in \<open>auto simp: writer_inv_def writeFieldName_eq writeNull_eq serializeValue_eq
          addAnnotation_def split: if_splits\<close>)
qed

lemma PrettyTextWriter_inv: "writer_inv (PrettyTextWriter sf nf isz d)"
  by (simp add: writer_inv_def PrettyTextWriter_def Context_new_def openBelow_one)

lemma run_inv:
  "writer_inv w \<Longrightarrow> run xs w = Inr w' \<Longrightarrow> writer_inv w' \<and> same_config w w'"
proof (induction xs arbitrary: w)
  case Nil
  then show ?case by (simp add: same_config_def)
next
  case (Cons x xs)
  from Cons.prems(2) obtain w1 where w1: "apply_op x w = Inr w1" and r: "run xs w1 = Inr w'"
    by (auto simp: andThen_def split: sum.splits)
  from apply_op_inv [OF Cons.prems(1) w1] have "writer_inv w1" .
  from Cons.IH [OF this r] apply_op_config [OF w1] show ?case
    by (simp add: same_config_def)
qed

lemma reachable:
  assumes "run xs (PrettyTextWriter sf nf isz d) = Inr w"
  shows "writer_inv w \<and> indentSize w = isz \<and> prettify_depth w = d \<and>
         serializeSymbolToken w = sf \<and> serializeNullOf w = nf"
  using run_inv [OF PrettyTextWriter_inv assms]
  by (simp add: same_config_def PrettyTextWriter_def)

subsection \<open>Evaluation of concrete runs\<close>

lemmas eval_defs =
  sink_output_def top_frame_def the_writer_def PrettyTextWriter_def Context_new_def stepIn_def
  openingByte_def writeContainer_def writeFieldName_def writeNull_def u_serializeValue_def
  stepOut_def closingByte_def handleSeparator_def writePrettyValue_def writePrettyNewLine_eq
  writePrettyIndent_eq pretty_guard_def currentContainer_def andThen_def depth_def set_clean_def
  set_state_def writeAnnotations_def annotationBytes_def writeSymbolToken_def u_writeNull_def
  u_stepIn_def addAnnotation_def writeBytes_def writeByte_def less_number_def minus_one_def
  plainSymbol_def plainNull_def Let_def eval_nat_numeral
  LINE_FEED_def SPACE_def COMMA_def COLON_def LEFT_BRACKET_def RIGHT_BRACKET_def
  LEFT_PARENTHESIS_def RIGHT_PARENTHESIS_def LEFT_BRACE_def RIGHT_BRACE_def

subsection \<open>Steps that emit the compact layout\<close>

lemma valuePrefix_compact:
  assumes "containerContext w = c # cs" and "\<not> pretty_guard w"
  shows "valuePrefix w = compactSeparator w @ annotationBytes w"
  using assms
  by (auto simp: valuePrefix_def separatorBytes_def valueIndentBytes_def indentBytes_def
      compactSeparator_def currentContainer_def depth_def split: option.splits IonType.splits)

lemma stepOut_guard:
  assumes "containerContext w = c # cs"
  shows "less_number (int (length cs) - 1) (minus_one (prettify_depth w)) \<longleftrightarrow>
         less_number (depth w) (prettify_depth w)"
  using assms by (simp add: less_minus_one depth_def)

lemma enterGuard_less: "enterGuard w \<Longrightarrow> less_number (depth w) (prettify_depth w)"
  by (auto simp: enterGuard_def less_number_def minus_one_def split: option.splits)

lemma compact_step:
  assumes cs: "containerContext w = c # cs" and np: "\<not> pretty_guard w"
    and step: "apply_op x w = Inr w'"
  shows "writeable w' = writeable w @ compactBytes x w"
proof (cases x)
  case (WriteFieldName n)
  with step np show ?thesis
    by (auto simp: writeFieldName_eq [OF cs] indentBytes_def currentContainer_def cs
        split: if_splits)
next
  case (WriteNull t)
  with step show ?thesis
    by (auto simp: writeNull_eq [OF cs] valuePrefix_compact [OF cs np])
next
  case (WriteValue t v)
  with step show ?thesis
    by (cases v) (auto simp: serializeValue_eq [OF cs] valuePrefix_compact [OF cs np] split: if_splits)
next
  case (AddAnnotation a)
  with step show ?thesis
    by (auto simp: addAnnotation_def)
next
  case (StepIn t)
  from np have "\<not> (enterGuard w \<and> 0 < indentSize w)"
    using enterGuard_less [of w] by (auto simp: pretty_guard_def)
  with step StepIn show ?thesis
    by (auto simp: stepIn_eq [OF cs] writeContainer_eq [OF cs] valuePrefix_compact [OF cs np]
        split: if_splits option.splits)
next
  case StepOut
  from np have "\<not> (less_number (int (length cs) - 1) (minus_one (prettify_depth w)) \<and> 0 < indentSize w)"
    unfolding stepOut_guard [OF cs] by (auto simp: pretty_guard_def)
  with step StepOut show ?thesis
    by (auto simp: stepOut_eq [OF cs] Let_def currentContainer_def cs
        split: if_splits option.splits)
qed

subsection \<open>The frames of the open containers\<close>

lemma apply_op_frames:
  assumes "frames_inv w" and "apply_op x w = Inr w'"
  shows "frames_inv w'"
proof (cases "containerContext w")
  case Nil
  with assms(2) obtain a where "x = AddAnnotation a" using apply_op_empty by blast
  with assms show ?thesis by (auto simp: addAnnotation_def frames_inv_def)
next
  case (Cons c cs)
  note cs = Cons
  have keep: "frames_inv w'"
    if "containerContext w' = c' # cs" and "containerType c' = containerType c" for c'
    using assms(1) that by (cases "cs = []") (auto simp: frames_inv_def cs)
  show ?thesis
  proof (cases x)
    case (WriteFieldName n)
    with assms(2) have "containerContext w' = c\<lparr>state := VALUE\<rparr> # cs"
      by (auto simp: writeFieldName_eq [OF cs] split: if_splits)
    from keep [OF this] show ?thesis by simp
  next
    case (WriteNull t)
    with assms(2) have "containerContext w' = c\<lparr>clean := False,
        state := (if containerType c = Some STRUCT then STRUCT_FIELD else state c)\<rparr> # cs"
      by (auto simp: writeNull_eq [OF cs])
    from keep [OF this] show ?thesis by simp
  next
    case (WriteValue t v)
    with assms(2) have "containerContext w' = c\<lparr>clean := False,
        state := (if containerType c = Some STRUCT then STRUCT_FIELD else state c)\<rparr> # cs"
      by (auto simp: serializeValue_eq [OF cs] split: if_splits)
    from keep [OF this] show ?thesis by simp
  next
    case (AddAnnotation a)
    with assms(2) have "containerContext w' = c # cs"
      by (auto simp: addAnnotation_def cs)
    from keep [OF this] show ?thesis by simp
  next
    case (StepIn t)
    with assms(2) obtain ch where ch: "openingByte t = Some ch"
      and cc: "containerContext w' = Context_new (Some t) # c\<lparr>clean := False,
        state := (if containerType c = Some STRUCT then STRUCT_FIELD else state c)\<rparr> # cs"
      by (auto simp: stepIn_eq [OF cs] writeContainer_eq [OF cs] split: if_splits option.splits)
    from ch have t: "t = LIST \<or> t = SEXP \<or> t = STRUCT"
      by (cases t) (auto simp: openingByte_def)
    from assms(1) have "\<forall>f \<in> set (butlast (c\<lparr>clean := False,
        state := (if containerType c = Some STRUCT then STRUCT_FIELD else state c)\<rparr> # cs)).
        containerType f = Some LIST \<or> containerType f = Some SEXP \<or> containerType f = Some STRUCT"
      by (cases "cs = []") (auto simp: frames_inv_def cs)
    with t show ?thesis
      by (simp add: frames_inv_def cc Context_new_def)
  next
    case StepOut
    with assms(2) have "containerContext w' = cs"
      by (auto simp: stepOut_eq [OF cs] Let_def split: if_splits option.splits)
    with assms(1) show ?thesis
      by (cases "cs = []") (auto simp: frames_inv_def cs dest: in_set_butlastD)
  qed
qed

lemma run_frames: "frames_inv w \<Longrightarrow> run xs w = Inr w' \<Longrightarrow> frames_inv w'"
proof (induction xs arbitrary: w)
  case Nil
  then show ?case by simp
next
  case (Cons x xs)
  from Cons.prems(2) obtain w1 where w1: "apply_op x w = Inr w1" and r: "run xs w1 = Inr w'"
    by (auto simp: andThen_def split: sum.splits)
  from Cons.IH [OF apply_op_frames [OF Cons.prems(1) w1] r] show ?case .
qed

lemma reachable_frame:
  assumes "run xs (PrettyTextWriter sf nf isz d) = Inr w" and "containerContext w = c # cs"
  shows "cs = [] \<and> containerType c = None \<or>
         cs \<noteq> [] \<and>
         (containerType c = Some LIST \<or> containerType c = Some SEXP \<or> containerType c = Some STRUCT)"
proof -
  have "frames_inv (PrettyTextWriter sf nf isz d)"
    by (simp add: frames_inv_def PrettyTextWriter_def)
  from run_frames [OF this assms(1)] have f: "frames_inv w" .
  from reachable [OF assms(1)] have "containerType (last (containerContext w)) = None"
    by (simp add: writer_inv_def)
  with f assms(2) show ?thesis
    by (cases "cs = []") (auto simp: frames_inv_def)
qed

subsection \<open>The first value at the top level\<close>

lemma apply_op_top_level:
  assumes "top_level_inv w" and "apply_op x w = Inr w'"
  shows "top_level_inv w' \<and>
         (clean (last (containerContext w')) \<longleftrightarrow>
            clean (last (containerContext w)) \<and> \<not> writesValue x)"
proof -
  from assms(1) have inv: "writer_inv w"
    and tl: "clean (last (containerContext w)) \<longrightarrow> length (containerContext w) = 1"
    by (simp_all add: top_level_inv_def)
  from apply_op_inv [OF inv assms(2)] have inv': "writer_inv w'" .
  from inv obtain c cs where cs: "containerContext w = c # cs"
    by (cases "containerContext w") (auto simp: writer_inv_def)
  from inv cs have ty: "containerType (last (c # cs)) = None"
    by (simp add: writer_inv_def)
  have fin: "top_level_inv w' \<and>
         (clean (last (containerContext w')) \<longleftrightarrow>
            clean (last (containerContext w)) \<and> \<not> writesValue x)"
    if cc: "containerContext w' = fs @ c' # cs"
      and v: "writesValue x \<longrightarrow> \<not> clean c'"
      and nv: "\<not> writesValue x \<longrightarrow> cs = [] \<longrightarrow> clean c' = clean c"
      and ne: "cs = [] \<longrightarrow> fs = [] \<or> writesValue x"
    for fs c'
  proof (cases "cs = []")
    case True
    with cc v nv ne tl inv' show ?thesis
      by (cases "writesValue x") (auto simp: top_level_inv_def cs)
  next
    case False
    with tl have "\<not> clean (last cs)"
      by (cases cs) (auto simp: cs)
    with False cc inv' show ?thesis
      by (simp add: top_level_inv_def cs)
  qed
  show ?thesis
  proof (cases x)
    case (WriteFieldName n)
    with assms(2) have "containerContext w' = [] @ c\<lparr>state := VALUE\<rparr> # cs"
      by (auto simp: writeFieldName_eq [OF cs] split: if_splits)
    from fin [OF this] WriteFieldName show ?thesis by simp
  next
    case (WriteNull t)
    with assms(2) have "containerContext w' = [] @ c\<lparr>clean := False,
        state := (if containerType c = Some STRUCT then STRUCT_FIELD else state c)\<rparr> # cs"
      by (auto simp: writeNull_eq [OF cs])
    from fin [OF this] WriteNull show ?thesis by simp
  next
    case (WriteValue t v)
    with assms(2) have "containerContext w' = [] @ c\<lparr>clean := False,
        state := (if containerType c = Some STRUCT then STRUCT_FIELD else state c)\<rparr> # cs"
      by (auto simp: serializeValue_eq [OF cs] split: if_splits)
    from fin [OF this] WriteValue show ?thesis by simp
  next
    case (AddAnnotation a)
    with assms(2) have "containerContext w' = [] @ c # cs"
      by (auto simp: addAnnotation_def cs)
    from fin [OF this] AddAnnotation show ?thesis by simp
  next
    case (StepIn t)
    with assms(2) have "containerContext w' = [Context_new (Some t)] @ c\<lparr>clean := False,
        state := (if containerType c = Some STRUCT then STRUCT_FIELD else state c)\<rparr> # cs"
      by (auto simp: stepIn_eq [OF cs] writeContainer_eq [OF cs] split: if_splits option.splits)
    from fin [OF this] StepIn show ?thesis by simp
  next
    case StepOut
    with assms(2) have cc: "containerContext w' = cs" and nt: "containerType c \<noteq> None"
      by (auto simp: stepOut_eq [OF cs] Let_def split: if_splits option.splits)
    from nt ty have ne: "cs \<noteq> []"
      by auto
    with tl have "\<not> clean (last cs)"
      by (simp add: cs)
    with ne cc inv' StepOut show ?thesis
      by (simp add: top_level_inv_def cs)
  qed
qed

lemma run_top_level:
  "top_level_inv w \<Longrightarrow> run xs w = Inr w' \<Longrightarrow>
     top_level_inv w' \<and>
     (clean (last (containerContext w')) \<longleftrightarrow>
        clean (last (containerContext w)) \<and> filter writesValue xs = [])"
proof (induction xs arbitrary: w)
  case Nil
  then show ?case by simp
next
  case (Cons x xs)
  from Cons.prems(2) obtain w1 where w1: "apply_op x w = Inr w1" and r: "run xs w1 = Inr w'"
    by (auto simp: andThen_def split: sum.splits)
  from apply_op_top_level [OF Cons.prems(1) w1] Cons.IH [OF _ r] show ?case
    by auto
qed

lemma first_value:
  assumes "run xs (PrettyTextWriter sf nf isz d) = Inr w"
  shows "clean (last (containerContext w)) \<longleftrightarrow> filter writesValue xs = []"
proof -
  have "top_level_inv (PrettyTextWriter sf nf isz d)"
    using PrettyTextWriter_inv [of sf nf isz d]
    by (simp add: top_level_inv_def) (simp add: PrettyTextWriter_def)
  from run_top_level [OF this assms] show ?thesis
    by (simp add: PrettyTextWriter_def Context_new_def)
qed

section \<open>The claims\<close>

text \<open>
  Claim C1: every write of a value (a scalar through the generic path, a null through
  \<^verbatim>\<open>writeNull\<close>, a container through \<^verbatim>\<open>writeContainer\<close>) made while the enclosing struct expects
  a field name fails with a StructuralError and emits nothing.

  The source checks the state in \<^verbatim>\<open>_serializeValue\<close> (lines 107 to 109), not in \<^verbatim>\<open>writeNull\<close>
  (lines 60 to 71). On a new writer (indent size 2, no threshold) a struct is opened,
  which leaves its frame in the state STRUCT_FIELD; then a scalar is refused, but
  \<^verbatim>\<open>writeNull\<close> succeeds and emits the null.
\<close>

theorem C1_null_accepted_where_field_expected:
  "top_frame (run [StepIn STRUCT] (PrettyTextWriter plainSymbol plainNull 2 None)) =
     Some \<lparr>state = STRUCT_FIELD, clean = True, containerType = Some STRUCT\<rparr> \<and>
   sink_output (run [StepIn STRUCT] (PrettyTextWriter plainSymbol plainNull 2 None)) =
     Inr [LEFT_BRACE, LINE_FEED] \<and>
   sink_output (run [StepIn STRUCT, WriteNull None] (PrettyTextWriter plainSymbol plainNull 2 None)) =
     Inr ([LEFT_BRACE, LINE_FEED] @ ''null'') \<and>
   sink_output (run [StepIn STRUCT, WriteValue INT_t (Some ''1'')]
       (PrettyTextWriter plainSymbol plainNull 2 None)) =
     Inl (Error ''Expecting a struct field'')"
  by (simp add: eval_defs)

text \<open>
  Claim C2: for every container type and every configuration, opening a container and
  closing it at once emits its two delimiter bytes and nothing between them.

  As stated the claim fails: with indent size 2 and no threshold an empty list is an
  opening bracket, a line feed and a closing bracket.
\<close>

theorem C2_empty_list_counterexample:
  "sink_output (run [StepIn LIST, StepOut] (PrettyTextWriter plainSymbol plainNull 2 None)) =
     Inr [LEFT_BRACKET, LINE_FEED, RIGHT_BRACKET] \<and>
   sink_output (run [StepIn LIST, StepOut] (PrettyTextWriter plainSymbol plainNull 2 None)) \<noteq>
     Inr [LEFT_BRACKET, RIGHT_BRACKET]"
  by (simp add: eval_defs)

text \<open>
  Claim C2, amended: opening a container (LIST, SEXP or STRUCT) on a writer whose current
  frame does not await a field name, and closing it at once, succeeds, and between the
  two delimiters stands nothing when the indent size is not positive or the depth inside
  the container is at or beyond the threshold; otherwise exactly one line feed followed
  by the indentation of the enclosing level (\<open>indentCount\<close> times \<open>indentSize\<close> spaces), and
  no separator. \<open>valuePrefix\<close> is what precedes the opening delimiter.
\<close>

theorem C2_empty_container:
  assumes "openingByte t = Some ob" and "currentContainer w = Some c"
    and "state c \<noteq> STRUCT_FIELD"
  shows "\<exists>w1 w2 cb. stepIn t w = Inr w1 \<and> stepOut w1 = Inr w2 \<and>
           closingByte (Some t) = Some cb \<and>
           writeable w1 = writeable w @ valuePrefix w @ [ob] @
             (if 0 < indentSize w \<and> less_number (depth w) (minus_one (prettify_depth w))
              then [LINE_FEED] else []) \<and>
           writeable w2 = writeable w @ valuePrefix w @ [ob] @
             (if 0 < indentSize w \<and> less_number (depth w) (minus_one (prettify_depth w))
              then LINE_FEED # replicate (nat (indentCount w * indentSize w)) SPACE else []) @
             [cb]"
proof -
  from assms(2) obtain cs where cs: "containerContext w = c # cs"
    by (auto simp: currentContainer_def split: list.splits)
  let ?c1 = "c\<lparr>clean := False,
                state := (if containerType c = Some STRUCT then STRUCT_FIELD else state c)\<rparr>"
  define w1 where "w1 = w\<lparr>writeable := writeable w @ valuePrefix w @ [ob] @
                (if enterGuard w \<and> 0 < indentSize w then [LINE_FEED] else []),
            containerContext := Context_new (Some t) # ?c1 # cs,
            annotations := [],
            indentCount := indentCount w + (if enterGuard w then 1 else 0)\<rparr>"
  have in1: "stepIn t w = Inr w1"
    using assms(1,3) by (simp add: stepIn_eq [OF cs] writeContainer_eq [OF cs] w1_def)
  have cs1: "containerContext w1 = Context_new (Some t) # ?c1 # cs"
    by (simp add: w1_def)
  from assms(1) obtain cb where cb: "closingByte (Some t) = Some cb"
    by (cases t) (auto simp: openingByte_def closingByte_def)
  have out: "stepOut w1 = Inr (w1\<lparr>containerContext := ?c1 # cs,
      writeable := (writeable w1 @
                      (if enterGuard w \<and> 0 < indentSize w
                       then replicate (nat ((indentCount w1 - 1) * indentSize w)) SPACE
                       else [])) @ [cb],
      indentCount := indentCount w1 - (if enterGuard w then 1 else 0)\<rparr>)"
  proof -
    have ty: "containerType (Context_new (Some t)) = Some t" "clean (Context_new (Some t))"
      by (auto simp: Context_new_def)
    have ns: "\<not> (Some t = Some STRUCT \<and> state (Context_new (Some t)) = VALUE)"
      by (auto simp: Context_new_def)
    have w1f: "prettify_depth w1 = prettify_depth w" "indentSize w1 = indentSize w"
      by (simp_all add: w1_def)
    have g': "less_number (int (length cs)) (minus_one (prettify_depth w)) = enterGuard w"
      by (simp add: enterGuard_def depth_def cs)
    show ?thesis
      unfolding stepOut_eq [OF cs1] ty(1) Let_def w1f
      using ns cb ty(2) by (cases "enterGuard w") (simp_all add: g')
  qed
  show ?thesis
    apply (intro exI conjI)
        apply (rule in1)
       apply (rule out)
      apply (rule cb)
     apply (simp add: w1_def enterGuard_def conj_commute)
    apply (simp add: w1_def enterGuard_def conj_commute)
    done
qed

theorem C2_empty_container_witness:
  "openingByte LIST = Some LEFT_BRACKET \<and>
   currentContainer (PrettyTextWriter plainSymbol plainNull 0 None) = Some (Context_new None) \<and>
   state (Context_new None) \<noteq> STRUCT_FIELD \<and>
   sink_output (run [StepIn LIST, StepOut] (PrettyTextWriter plainSymbol plainNull 0 None)) =
     Inr [LEFT_BRACKET, RIGHT_BRACKET]"
proof -
  have a: "openingByte LIST = Some LEFT_BRACKET"
    by (simp add: openingByte_def)
  have b: "currentContainer (PrettyTextWriter plainSymbol plainNull 0 None) = Some (Context_new None)"
    by (simp add: PrettyTextWriter_def currentContainer_def)
  have c: "state (Context_new None) \<noteq> STRUCT_FIELD"
    by (simp add: Context_new_def)
  from C2_empty_container [OF a b c] obtain w1 w2 cb where
    s: "stepIn LIST (PrettyTextWriter plainSymbol plainNull 0 None) = Inr w1" "stepOut w1 = Inr w2"
      "closingByte (Some LIST) = Some cb"
      "writeable w2 = writeable (PrettyTextWriter plainSymbol plainNull 0 None) @
         valuePrefix (PrettyTextWriter plainSymbol plainNull 0 None) @ [LEFT_BRACKET] @
         (if 0 < indentSize (PrettyTextWriter plainSymbol plainNull 0 None) \<and>
             less_number (depth (PrettyTextWriter plainSymbol plainNull 0 None))
               (minus_one (prettify_depth (PrettyTextWriter plainSymbol plainNull 0 None)))
          then LINE_FEED # replicate (nat (indentCount (PrettyTextWriter plainSymbol plainNull 0 None) *
                 indentSize (PrettyTextWriter plainSymbol plainNull 0 None))) SPACE else []) @ [cb]"
    by blast
  from s(3) have cb: "cb = RIGHT_BRACKET"
    by (simp add: closingByte_def)
  have "writeable w2 = [LEFT_BRACKET, RIGHT_BRACKET]"
    unfolding s(4) cb
    by (simp add: PrettyTextWriter_def valuePrefix_def separatorBytes_def valueIndentBytes_def
        annotationBytes_def Context_new_def)
  with s(1,2) a b c show ?thesis
    by (simp add: sink_output_def andThen_def)
qed

text \<open>
  Claim C3: before a field name that is not the first of its struct, a comma and a line
  feed are emitted, the line feed unconditionally, also at or beyond the threshold.

  As stated the claim fails: with threshold 1 the second field of a struct at depth 1
  follows the comma directly.
\<close>

theorem C3_field_separator_counterexample:
  "sink_output (run [StepIn STRUCT, WriteFieldName ''a'', WriteValue INT_t (Some ''1''),
        WriteFieldName ''b''] (PrettyTextWriter plainSymbol plainNull 2 (Some 1))) =
     Inr ([LEFT_BRACE] @ ''a'' @ [COLON, SPACE] @ ''1'' @ [COMMA] @ ''b'' @ [COLON, SPACE])"
  by (simp add: eval_defs)

text \<open>
  Claim C3, amended: \<^verbatim>\<open>writeFieldName\<close> on a struct that expects a field name and is not clean
  emits a comma, then a line feed and the indentation exactly when the indent size is
  positive and the depth is below the threshold (the call of \<^verbatim>\<open>writePrettyNewLine\<close> is
  unconditional, its guard is not), then the field name, a colon and a space.
\<close>

theorem C3_field_separator:
  assumes "currentContainer w = Some c" and "containerType c = Some STRUCT"
    and "state c = STRUCT_FIELD" and "\<not> clean c"
  shows "\<exists>w'. writeFieldName n w = Inr w' \<and>
           writeable w' = writeable w @ [COMMA] @
             (if 0 < indentSize w \<and> less_number (depth w) (prettify_depth w)
              then LINE_FEED # replicate (nat (indentCount w * indentSize w)) SPACE else []) @
             serializeSymbolToken w n @ [COLON, SPACE]"
proof -
  from assms(1) obtain cs where cs: "containerContext w = c # cs"
    by (auto simp: currentContainer_def split: list.splits)
  from assms(2-4) show ?thesis
    by (simp add: writeFieldName_eq [OF cs] indentBytes_def pretty_guard_def)
qed

theorem C3_field_separator_witness:
  "currentContainer (the_writer (run [StepIn STRUCT, WriteFieldName ''a'', WriteValue INT_t (Some ''1'')]
        (PrettyTextWriter plainSymbol plainNull 2 None))) =
     Some \<lparr>state = STRUCT_FIELD, clean = False, containerType = Some STRUCT\<rparr> \<and>
   (\<exists>w'. writeFieldName ''b''
      (the_writer (run [StepIn STRUCT, WriteFieldName ''a'', WriteValue INT_t (Some ''1'')]
        (PrettyTextWriter plainSymbol plainNull 2 None))) = Inr w' \<and>
      writeable w' =
        [LEFT_BRACE, LINE_FEED, SPACE, SPACE] @ ''a'' @ [COLON, SPACE] @ ''1'' @
        [COMMA, LINE_FEED, SPACE, SPACE] @ ''b'' @ [COLON, SPACE])"
proof -
  let ?w = "the_writer (run [StepIn STRUCT, WriteFieldName ''a'', WriteValue INT_t (Some ''1'')]
        (PrettyTextWriter plainSymbol plainNull 2 None))"
  let ?c = "\<lparr>state = STRUCT_FIELD, clean = False, containerType = Some STRUCT\<rparr>"
  have c: "currentContainer ?w = Some ?c"
    by (simp add: eval_defs)
  have t: "containerType ?c = Some STRUCT" and st: "state ?c = STRUCT_FIELD" and cl: "\<not> clean ?c"
    by simp_all
  have o: "writeable ?w = [LEFT_BRACE, LINE_FEED, SPACE, SPACE] @ ''a'' @ [COLON, SPACE] @ ''1''"
    by (simp add: eval_defs)
  have i: "indentCount ?w = 1" "indentSize ?w = 2" "depth ?w = 1" "prettify_depth ?w = None"
    "serializeSymbolToken ?w = plainSymbol"
    by (simp_all add: eval_defs)
  from C3_field_separator [OF c t st cl, of "''b''"] obtain w' where
    w': "writeFieldName ''b'' ?w = Inr w'"
      "writeable w' = writeable ?w @ [COMMA] @
         (if 0 < indentSize ?w \<and> less_number (depth ?w) (prettify_depth ?w)
          then LINE_FEED # replicate (nat (indentCount ?w * indentSize ?w)) SPACE else []) @
         serializeSymbolToken ?w ''b'' @ [COLON, SPACE]"
    by blast
  have "writeable w' =
        [LEFT_BRACE, LINE_FEED, SPACE, SPACE] @ ''a'' @ [COLON, SPACE] @ ''1'' @
        [COMMA, LINE_FEED, SPACE, SPACE] @ ''b'' @ [COLON, SPACE]"
    unfolding w'(2) i o by (simp add: less_number_def plainSymbol_def eval_nat_numeral)
  with w'(1) c show ?thesis by blast
qed

text \<open>
  Claim C4: with indent size 0 the output of every sequence of successful operations
  has no line feed, and no space other than the mandatory separators.

  As stated the claim fails: two scalars at the top level are separated by a line feed,
  whatever the indent size.
\<close>

theorem C4_top_level_counterexample:
  "sink_output (run [WriteValue INT_t (Some ''1''), WriteValue INT_t (Some ''2'')]
      (PrettyTextWriter plainSymbol plainNull 0 None)) = Inr [CHR ''1'', LINE_FEED, CHR ''2'']"
  by (simp add: eval_defs)

text \<open>
  Claim C4, amended: after every sequence of successful operations on a writer
  constructed with indent size 0, every successful operation appends exactly the compact
  layout: the bytes of the operation itself, preceded by at most one separator, which is
  a line feed between top level values, a comma between list elements and before a
  field name that is not the first, a space between the elements of an s-expression;
  there is no indentation and no other line feed.
\<close>

theorem C4_compact_layout:
  assumes "run xs (PrettyTextWriter sf nf 0 d) = Inr w" and "apply_op x w = Inr w'"
  shows "writeable w' = writeable w @ compactBytes x w"
proof -
  from reachable [OF assms(1)] have inv: "writer_inv w" and isz: "indentSize w = 0"
    by simp_all
  from inv obtain c cs where cs: "containerContext w = c # cs"
    by (cases "containerContext w") (auto simp: writer_inv_def)
  from isz have np: "\<not> pretty_guard w"
    by (simp add: pretty_guard_def)
  from compact_step [OF cs np assms(2)] show ?thesis .
qed

theorem C4_compact_layout_witness:
  "run [StepIn SEXP, WriteValue INT_t (Some ''1'')] (PrettyTextWriter plainSymbol plainNull 0 None) =
     Inr (the_writer (run [StepIn SEXP, WriteValue INT_t (Some ''1'')]
            (PrettyTextWriter plainSymbol plainNull 0 None))) \<and>
   apply_op (WriteValue INT_t (Some ''2''))
     (the_writer (run [StepIn SEXP, WriteValue INT_t (Some ''1'')]
            (PrettyTextWriter plainSymbol plainNull 0 None))) =
     Inr (the_writer (run [StepIn SEXP, WriteValue INT_t (Some ''1''), WriteValue INT_t (Some ''2'')]
            (PrettyTextWriter plainSymbol plainNull 0 None))) \<and>
   writeable (the_writer (run [StepIn SEXP, WriteValue INT_t (Some ''1''), WriteValue INT_t (Some ''2'')]
            (PrettyTextWriter plainSymbol plainNull 0 None))) =
     [LEFT_PARENTHESIS, CHR ''1'', SPACE, CHR ''2'']"
proof -
  have r: "run [StepIn SEXP, WriteValue INT_t (Some ''1'')] (PrettyTextWriter plainSymbol plainNull 0 None) =
     Inr (the_writer (run [StepIn SEXP, WriteValue INT_t (Some ''1'')]
            (PrettyTextWriter plainSymbol plainNull 0 None)))"
    by (simp add: eval_defs)
  have a: "apply_op (WriteValue INT_t (Some ''2''))
     (the_writer (run [StepIn SEXP, WriteValue INT_t (Some ''1'')]
            (PrettyTextWriter plainSymbol plainNull 0 None))) =
     Inr (the_writer (run [StepIn SEXP, WriteValue INT_t (Some ''1''), WriteValue INT_t (Some ''2'')]
            (PrettyTextWriter plainSymbol plainNull 0 None)))"
    by (simp add: eval_defs)
  from C4_compact_layout [OF r a] r a show ?thesis
    by (simp add: eval_defs compactSeparator_def)
qed

text \<open>
  Claim C5: on a writer with threshold \<open>d > 0\<close> and a positive indent size, after every
  sequence of successful operations, every successful operation appends the following.
  At a depth of \<open>d\<close> or more: the compact layout, so no line feed and no indentation.
  At a depth \<open>k < d\<close>: a field name, and a value in a list or in an s-expression, are
  indented by \<open>k\<close> times the indent size, after the separator and its line feed when
  they are not the first; a value at the top level is preceded by a line feed at most,
  a value in a struct by nothing (it follows its field name); the closing delimiter of
  a container, which is an element of depth \<open>k - 1\<close>, is indented by \<open>k - 1\<close> times the
  indent size; an opening delimiter is followed by a line feed exactly when the depth
  inside the container, \<open>k + 1\<close>, is below \<open>d\<close>. The current frame is the top level frame,
  or that of a list, an s-expression or a struct, so the cases are all there are.
\<close>

theorem C5_threshold:
  assumes "run xs (PrettyTextWriter sf nf isz (Some d)) = Inr w" and "0 < d" and "0 < isz"
    and "currentContainer w = Some c" and "apply_op x w = Inr w'"
  shows "(d \<le> depth w \<longrightarrow> writeable w' = writeable w @ compactBytes x w) \<and>
         (depth w < d \<longrightarrow>
            ((\<exists>n. x = WriteFieldName n) \<longrightarrow>
               writeable w' = writeable w @ (if clean c then [] else [COMMA, LINE_FEED]) @
                 replicate (nat (depth w * isz)) SPACE @ ownBytes x w) \<and>
            (writesValue x \<and> depth w = 0 \<longrightarrow>
               writeable w' = writeable w @ (if clean c then [] else [LINE_FEED]) @
                 ownBytes x w @
                 (if opensContainer x \<and> depth w + 1 < d then [LINE_FEED] else [])) \<and>
            (writesValue x \<and> (containerType c = Some LIST \<or> containerType c = Some SEXP) \<longrightarrow>
               writeable w' = writeable w @
                 (if clean c then []
                  else [if containerType c = Some LIST then COMMA else SPACE, LINE_FEED]) @
                 replicate (nat (depth w * isz)) SPACE @ ownBytes x w @
                 (if opensContainer x \<and> depth w + 1 < d then [LINE_FEED] else [])) \<and>
            (writesValue x \<and> containerType c = Some STRUCT \<longrightarrow>
               writeable w' = writeable w @ ownBytes x w @
                 (if opensContainer x \<and> depth w + 1 < d then [LINE_FEED] else [])) \<and>
            (x = StepOut \<longrightarrow>
               writeable w' = writeable w @ (if clean c then [] else [LINE_FEED]) @
                 replicate (nat ((depth w - 1) * isz)) SPACE @ ownBytes x w) \<and>
            ((\<exists>a. x = AddAnnotation a) \<longrightarrow> writeable w' = writeable w)) \<and>
         (depth w = 0 \<and> containerType c = None \<or>
          0 < depth w \<and>
          (containerType c = Some LIST \<or> containerType c = Some SEXP \<or>
           containerType c = Some STRUCT))"
proof -
  from reachable [OF assms(1)] have inv: "writer_inv w" and isz: "indentSize w = isz"
    and d: "prettify_depth w = Some d"
    by simp_all
  from assms(4) obtain cs where cs: "containerContext w = c # cs"
    by (auto simp: currentContainer_def split: list.splits)
  from reachable_frame [OF assms(1) cs]
  have fr: "cs = [] \<and> containerType c = None \<or>
         cs \<noteq> [] \<and>
         (containerType c = Some LIST \<or> containerType c = Some SEXP \<or> containerType c = Some STRUCT)" .
  have dz: "depth w = 0 \<longleftrightarrow> cs = []" "0 < depth w \<longleftrightarrow> cs \<noteq> []"
    by (auto simp: depth_def cs)
  from fr have C: "depth w = 0 \<and> containerType c = None \<or>
          0 < depth w \<and>
          (containerType c = Some LIST \<or> containerType c = Some SEXP \<or>
           containerType c = Some STRUCT)"
    unfolding dz by blast
  have A: "writeable w' = writeable w @ compactBytes x w" if "d \<le> depth w"
  proof -
    from that d have "\<not> pretty_guard w"
      by (simp add: pretty_guard_def less_number_def)
    from compact_step [OF cs this assms(5)] show ?thesis .
  qed
  have B: "((\<exists>n. x = WriteFieldName n) \<longrightarrow>
               writeable w' = writeable w @ (if clean c then [] else [COMMA, LINE_FEED]) @
                 replicate (nat (depth w * isz)) SPACE @ ownBytes x w) \<and>
            (writesValue x \<and> depth w = 0 \<longrightarrow>
               writeable w' = writeable w @ (if clean c then [] else [LINE_FEED]) @
                 ownBytes x w @
                 (if opensContainer x \<and> depth w + 1 < d then [LINE_FEED] else [])) \<and>
            (writesValue x \<and> (containerType c = Some LIST \<or> containerType c = Some SEXP) \<longrightarrow>
               writeable w' = writeable w @
                 (if clean c then []
                  else [if containerType c = Some LIST then COMMA else SPACE, LINE_FEED]) @
                 replicate (nat (depth w * isz)) SPACE @ ownBytes x w @
                 (if opensContainer x \<and> depth w + 1 < d then [LINE_FEED] else [])) \<and>
            (writesValue x \<and> containerType c = Some STRUCT \<longrightarrow>
               writeable w' = writeable w @ ownBytes x w @
                 (if opensContainer x \<and> depth w + 1 < d then [LINE_FEED] else [])) \<and>
            (x = StepOut \<longrightarrow>
               writeable w' = writeable w @ (if clean c then [] else [LINE_FEED]) @
                 replicate (nat ((depth w - 1) * isz)) SPACE @ ownBytes x w) \<and>
            ((\<exists>a. x = AddAnnotation a) \<longrightarrow> writeable w' = writeable w)"
    if k: "depth w < d"
  proof -
    from k d isz assms(3) have pg: "pretty_guard w"
      by (simp add: pretty_guard_def less_number_def)
    have "indentCount w = openBelow (length (c # cs)) (Some d)"
      using inv d by (simp add: writer_inv_def cs)
    also have "\<dots> = min (int (length (c # cs)) - 1) (d - 1)"
      by (rule openBelow_Some) (use assms(2) in simp_all)
    also have "\<dots> = depth w"
      using k by (simp add: depth_def cs)
    finally have ic: "indentCount w = depth w" .
    have ib: "indentBytes w = replicate (nat (depth w * isz)) SPACE"
      using pg by (simp add: indentBytes_def ic isz)
    have eg: "enterGuard w \<longleftrightarrow> depth w + 1 < d"
      by (auto simp: enterGuard_def d less_number_def minus_one_def)
    have og: "less_number (int (length cs) - 1) (minus_one (prettify_depth w))"
      unfolding stepOut_guard [OF cs] using k d by (simp add: less_number_def)
    have vp: "valuePrefix w = lead @ annotationBytes w"
      if "cs = [] \<and> lead = (if clean c then [] else [LINE_FEED]) \<or>
          cs \<noteq> [] \<and> (containerType c = Some LIST \<or> containerType c = Some SEXP) \<and>
            lead = (if clean c then []
                    else [if containerType c = Some LIST then COMMA else SPACE, LINE_FEED]) @
                   replicate (nat (depth w * isz)) SPACE \<or>
          cs \<noteq> [] \<and> containerType c = Some STRUCT \<and> lead = []" for lead
      using that pg
      by (auto simp: valuePrefix_def separatorBytes_def valueIndentBytes_def cs ib)
    have V: "writeable w' = writeable w @ lead @ ownBytes x w @
                 (if opensContainer x \<and> depth w + 1 < d then [LINE_FEED] else [])"
      if v: "writesValue x" and p: "valuePrefix w = lead @ annotationBytes w" for lead
    proof (cases x)
      case (WriteNull t)
      with assms(5) show ?thesis
        by (simp add: writeNull_eq [OF cs] p) auto
    next
      case (WriteValue t v)
      with assms(5) show ?thesis
        by (cases v) (auto simp: serializeValue_eq [OF cs] p split: if_splits)
    next
      case (StepIn t)
      with assms(5) assms(3) show ?thesis
        by (auto simp: stepIn_eq [OF cs] writeContainer_eq [OF cs] p eg isz
            split: if_splits option.splits)
    qed (use v in simp_all)
    have B1: "writeable w' = writeable w @ (if clean c then [] else [COMMA, LINE_FEED]) @
                 replicate (nat (depth w * isz)) SPACE @ ownBytes x w"
      if "x = WriteFieldName n" for n
      using assms(5) that pg
      by (auto simp: writeFieldName_eq [OF cs] ib split: if_splits)
    have B2: "writeable w' = writeable w @ (if clean c then [] else [LINE_FEED]) @
                 ownBytes x w @
                 (if opensContainer x \<and> depth w + 1 < d then [LINE_FEED] else [])"
      if "writesValue x" and "depth w = 0"
      using V [OF that(1) vp [of "if clean c then [] else [LINE_FEED]"]] that(2) dz
      by simp
    have B3: "writeable w' = writeable w @
                 (if clean c then []
                  else [if containerType c = Some LIST then COMMA else SPACE, LINE_FEED]) @
                 replicate (nat (depth w * isz)) SPACE @ ownBytes x w @
                 (if opensContainer x \<and> depth w + 1 < d then [LINE_FEED] else [])"
      if v: "writesValue x" and ty: "containerType c = Some LIST \<or> containerType c = Some SEXP"
    proof -
      from ty fr have ne: "cs \<noteq> []" by auto
      from V [OF v vp [of "(if clean c then []
                    else [if containerType c = Some LIST then COMMA else SPACE, LINE_FEED]) @
                   replicate (nat (depth w * isz)) SPACE"]] ne ty
      show ?thesis by simp
    qed
    have B4: "writeable w' = writeable w @ ownBytes x w @
                 (if opensContainer x \<and> depth w + 1 < d then [LINE_FEED] else [])"
      if v: "writesValue x" and ty: "containerType c = Some STRUCT"
    proof -
      from ty fr have ne: "cs \<noteq> []" by auto
      from V [OF v vp [of "[]"]] ne ty show ?thesis by simp
    qed
    have B5: "writeable w' = writeable w @ (if clean c then [] else [LINE_FEED]) @
                 replicate (nat ((depth w - 1) * isz)) SPACE @ ownBytes x w"
      if "x = StepOut"
      using assms(5) that og assms(3)
      by (auto simp: stepOut_eq [OF cs] Let_def ic isz currentContainer_def cs
          split: if_splits option.splits)
    have B6: "writeable w' = writeable w" if "x = AddAnnotation a" for a
      using assms(5) that by (auto simp: addAnnotation_def)
    from B1 B2 B3 B4 B5 B6 show ?thesis by blast
  qed
  from A B C show ?thesis by blast
qed

theorem C5_threshold_witness:
  "run [StepIn STRUCT, WriteFieldName ''a''] (PrettyTextWriter plainSymbol plainNull 2 (Some 2)) =
     Inr (the_writer (run [StepIn STRUCT, WriteFieldName ''a'']
       (PrettyTextWriter plainSymbol plainNull 2 (Some 2)))) \<and>
   (0::int) < 2 \<and>
   currentContainer (the_writer (run [StepIn STRUCT, WriteFieldName ''a'']
       (PrettyTextWriter plainSymbol plainNull 2 (Some 2)))) =
     Some \<lparr>state = VALUE, clean = True, containerType = Some STRUCT\<rparr> \<and>
   apply_op (StepIn LIST)
     (the_writer (run [StepIn STRUCT, WriteFieldName ''a'']
       (PrettyTextWriter plainSymbol plainNull 2 (Some 2)))) =
     Inr (the_writer (run [StepIn STRUCT, WriteFieldName ''a'', StepIn LIST]
       (PrettyTextWriter plainSymbol plainNull 2 (Some 2)))) \<and>
   depth (the_writer (run [StepIn STRUCT, WriteFieldName ''a'']
       (PrettyTextWriter plainSymbol plainNull 2 (Some 2)))) = 1 \<and>
   writeable (the_writer (run [StepIn STRUCT, WriteFieldName ''a'', StepIn LIST]
       (PrettyTextWriter plainSymbol plainNull 2 (Some 2)))) =
     [LEFT_BRACE, LINE_FEED, SPACE, SPACE, CHR ''a'', COLON, SPACE, LEFT_BRACKET]"
proof -
  let ?w = "the_writer (run [StepIn STRUCT, WriteFieldName ''a'']
       (PrettyTextWriter plainSymbol plainNull 2 (Some 2)))"
  let ?w' = "the_writer (run [StepIn STRUCT, WriteFieldName ''a'', StepIn LIST]
       (PrettyTextWriter plainSymbol plainNull 2 (Some 2)))"
  have r: "run [StepIn STRUCT, WriteFieldName ''a''] (PrettyTextWriter plainSymbol plainNull 2 (Some 2)) =
     Inr ?w"
    by (simp add: eval_defs)
  have p: "(0::int) < 2"
    by simp
  have c: "currentContainer ?w = Some \<lparr>state = VALUE, clean = True, containerType = Some STRUCT\<rparr>"
    by (simp add: eval_defs)
  have a: "apply_op (StepIn LIST) ?w = Inr ?w'"
    by (simp add: eval_defs)
  have k: "depth ?w = 1"
    by (simp add: eval_defs)
  have o: "writeable ?w = [LEFT_BRACE, LINE_FEED, SPACE, SPACE, CHR ''a'', COLON, SPACE]"
    by (simp add: eval_defs)
  from C5_threshold [OF r p p c a] k
  have "writeable ?w' = writeable ?w @ ownBytes (StepIn LIST) ?w"
    by simp
  also have "\<dots> = [LEFT_BRACE, LINE_FEED, SPACE, SPACE, CHR ''a'', COLON, SPACE, LEFT_BRACKET]"
    unfolding o by (simp add: eval_defs)
  finally show ?thesis using r p c a k by blast
qed

text \<open>
  Claim C6: on a new writer with indent size 2 and no threshold, opening a list, writing
  the scalars 1 and 2 and closing the list emits an opening bracket, a line feed, two
  spaces, 1, a comma, a line feed, two spaces, 2, a line feed and the closing bracket.
\<close>

theorem C6_list_scenario:
  "sink_output (run [StepIn LIST, WriteValue INT_t (Some ''1''), WriteValue INT_t (Some ''2''), StepOut]
      (PrettyTextWriter plainSymbol plainNull 2 None)) =
   Inr [LEFT_BRACKET, LINE_FEED, SPACE, SPACE, CHR ''1'', COMMA, LINE_FEED, SPACE, SPACE, CHR ''2'',
        LINE_FEED, RIGHT_BRACKET]"
  by (simp add: eval_defs)

text \<open>
  Claim C7: at depth 0, after any sequence of successful operations on a new writer, a
  value (scalar, null or opening of a container) is preceded by no separator when no
  value has been written before, and by exactly one line feed and no comma otherwise;
  the top level frame is not clean afterwards. Writing 1 and then 2 at the top level
  gives 1, a line feed, 2.
\<close>

theorem C7_top_level_separator:
  assumes "run xs (PrettyTextWriter sf nf isz d) = Inr w" and "depth w = 0"
    and "writesValue x" and "apply_op x w = Inr w'"
  shows "writeable w' = writeable w @
           (if filter writesValue xs = [] then [] else [LINE_FEED]) @ ownBytes x w @
           (if opensContainer x \<and> 0 < isz \<and> less_number 0 (minus_one d) then [LINE_FEED] else []) \<and>
         \<not> clean (last (containerContext w'))"
proof -
  from reachable [OF assms(1)] have inv: "writer_inv w" and cf: "indentSize w = isz"
    "prettify_depth w = d"
    by simp_all
  from inv assms(2) obtain c where cs: "containerContext w = [c]"
    by (cases "containerContext w") (auto simp: depth_def writer_inv_def)
  from first_value [OF assms(1)] have fv: "clean c \<longleftrightarrow> filter writesValue xs = []"
    by (simp add: cs)
  have p: "valuePrefix w = (if filter writesValue xs = [] then [] else [LINE_FEED]) @ annotationBytes w"
    by (simp add: valuePrefix_def separatorBytes_def valueIndentBytes_def cs fv)
  have g: "enterGuard w \<longleftrightarrow> less_number 0 (minus_one d)"
    by (simp add: enterGuard_def assms(2) cf)
  show ?thesis
  proof (cases x)
    case (WriteNull t)
    with assms(4) show ?thesis
      by (auto simp: writeNull_eq [OF cs] p)
  next
    case (WriteValue t v)
    with assms(4) show ?thesis
      by (cases v) (auto simp: serializeValue_eq [OF cs] p split: if_splits)
  next
    case (StepIn t)
    with assms(4) show ?thesis
      by (auto simp: stepIn_eq [OF cs] writeContainer_eq [OF cs] p g cf
          split: if_splits option.splits)
  qed (use assms(3) in simp_all)
qed

theorem C7_top_level_separator_witness:
  "run [WriteValue INT_t (Some ''1'')] (PrettyTextWriter plainSymbol plainNull 2 None) =
     Inr (the_writer (run [WriteValue INT_t (Some ''1'')] (PrettyTextWriter plainSymbol plainNull 2 None))) \<and>
   depth (the_writer (run [WriteValue INT_t (Some ''1'')] (PrettyTextWriter plainSymbol plainNull 2 None))) = 0 \<and>
   writesValue (WriteValue INT_t (Some ''2'')) \<and>
   apply_op (WriteValue INT_t (Some ''2''))
     (the_writer (run [WriteValue INT_t (Some ''1'')] (PrettyTextWriter plainSymbol plainNull 2 None))) =
     Inr (the_writer (run [WriteValue INT_t (Some ''1''), WriteValue INT_t (Some ''2'')]
       (PrettyTextWriter plainSymbol plainNull 2 None))) \<and>
   writeable (the_writer (run [WriteValue INT_t (Some ''1'')]
       (PrettyTextWriter plainSymbol plainNull 2 None))) = [CHR ''1''] \<and>
   writeable (the_writer (run [WriteValue INT_t (Some ''1''), WriteValue INT_t (Some ''2'')]
       (PrettyTextWriter plainSymbol plainNull 2 None))) = [CHR ''1'', LINE_FEED, CHR ''2'']"
proof -
  let ?w1 = "the_writer (run [WriteValue INT_t (Some ''1'')] (PrettyTextWriter plainSymbol plainNull 2 None))"
  let ?w2 = "the_writer (run [WriteValue INT_t (Some ''1''), WriteValue INT_t (Some ''2'')]
       (PrettyTextWriter plainSymbol plainNull 2 None))"
  have r: "run [WriteValue INT_t (Some ''1'')] (PrettyTextWriter plainSymbol plainNull 2 None) = Inr ?w1"
    by (simp add: eval_defs)
  have d: "depth ?w1 = 0"
    by (simp add: eval_defs)
  have v: "writesValue (WriteValue INT_t (Some ''2''))"
    by simp
  have a: "apply_op (WriteValue INT_t (Some ''2'')) ?w1 = Inr ?w2"
    by (simp add: eval_defs)
  have o: "writeable ?w1 = [CHR ''1'']"
    by (simp add: eval_defs)
  from C7_top_level_separator [OF r d v a]
  have "writeable ?w2 = writeable ?w1 @ [LINE_FEED] @ ownBytes (WriteValue INT_t (Some ''2'')) ?w1"
    by simp
  also have "\<dots> = [CHR ''1'', LINE_FEED, CHR ''2'']"
    unfolding o by (simp add: eval_defs)
  finally show ?thesis using r d v a o by blast
qed

text \<open>
  Claim C8: \<^verbatim>\<open>writeFieldName\<close> fails with a StructuralError, leaving the writer as it was,
  whenever the current container is not a struct or is a struct whose state is not
  STRUCT_FIELD; it succeeds otherwise, and after a success the frame of the struct is
  in the state VALUE.
\<close>

theorem C8_writeFieldName_grammar:
  assumes "currentContainer w = Some c"
  shows "(containerType c \<noteq> Some STRUCT \<or> state c \<noteq> STRUCT_FIELD \<longrightarrow>
            (\<exists>e. writeFieldName n w = Inl (e, w) \<and> StructuralError e)) \<and>
         (containerType c = Some STRUCT \<and> state c = STRUCT_FIELD \<longrightarrow>
            (\<exists>w'. writeFieldName n w = Inr w')) \<and>
         (\<forall>w'. writeFieldName n w = Inr w' \<longrightarrow>
            (\<exists>c'. currentContainer w' = Some c' \<and> containerType c' = Some STRUCT \<and>
                  state c' = VALUE))"
proof -
  from assms obtain cs where cs: "containerContext w = c # cs"
    by (auto simp: currentContainer_def split: list.splits)
  show ?thesis
    by (auto simp: writeFieldName_eq [OF cs] StructuralError_def currentContainer_def)
qed

theorem C8_writeFieldName_grammar_witness:
  "currentContainer (the_writer (run [StepIn STRUCT] (PrettyTextWriter plainSymbol plainNull 2 None))) =
     Some \<lparr>state = STRUCT_FIELD, clean = True, containerType = Some STRUCT\<rparr> \<and>
   (\<exists>w'. writeFieldName ''a''
       (the_writer (run [StepIn STRUCT] (PrettyTextWriter plainSymbol plainNull 2 None))) = Inr w' \<and>
      (\<exists>c'. currentContainer w' = Some c' \<and> containerType c' = Some STRUCT \<and> state c' = VALUE))"
proof -
  have h: "currentContainer (the_writer (run [StepIn STRUCT] (PrettyTextWriter plainSymbol plainNull 2 None))) =
     Some \<lparr>state = STRUCT_FIELD, clean = True, containerType = Some STRUCT\<rparr>"
    by (simp add: eval_defs)
  from C8_writeFieldName_grammar [OF h, of "''a''"] h show ?thesis
    by auto
qed

text \<open>
  Claim C9: after every sequence of successful operations \<open>indentCount\<close> is the number of
  open containers that were entered at a depth below the threshold (the open containers
  have the depths 1 up to the current depth); it is 0 at construction; entering a
  container adds one exactly when the depth inside is below the threshold, leaving it
  subtracts one under the same condition, and no other operation changes it.
\<close>

theorem C9_indentCount:
  assumes "run xs (PrettyTextWriter sf nf isz d) = Inr w"
  shows "indentCount w =
           int (length (filter (\<lambda>k. less_number (int k) d) [1..<length (containerContext w)])) \<and>
         indentCount (PrettyTextWriter sf nf isz d) = 0 \<and>
         (\<forall>t w'. stepIn t w = Inr w' \<longrightarrow>
            indentCount w' = indentCount w + (if less_number (depth w') d then 1 else 0)) \<and>
         (\<forall>w'. stepOut w = Inr w' \<longrightarrow>
            indentCount w' = indentCount w - (if less_number (depth w) d then 1 else 0)) \<and>
         (\<forall>x w'. apply_op x w = Inr w' \<and> \<not> opensContainer x \<and> x \<noteq> StepOut \<longrightarrow>
            indentCount w' = indentCount w)"
proof -
  from reachable [OF assms] have inv: "writer_inv w" and d: "prettify_depth w = d"
    by simp_all
  from inv obtain c cs where cs: "containerContext w = c # cs"
    by (cases "containerContext w") (auto simp: writer_inv_def)
  have a: "indentCount w =
           int (length (filter (\<lambda>k. less_number (int k) d) [1..<length (containerContext w)]))"
    using inv d by (simp add: writer_inv_def openBelow_def)
  have b: "indentCount (PrettyTextWriter sf nf isz d) = 0"
    by (simp add: PrettyTextWriter_def)
  have c: "indentCount w' = indentCount w + (if less_number (depth w') d then 1 else 0)"
    if "stepIn t w = Inr w'" for t w'
    using that d
    by (auto simp: stepIn_eq [OF cs] writeContainer_eq [OF cs] enterGuard_def depth_def cs
        less_minus_one split: if_splits option.splits)
  have e: "indentCount w' = indentCount w - (if less_number (depth w) d then 1 else 0)"
    if "stepOut w = Inr w'" for w'
    using that d stepOut_guard [OF cs]
    by (auto simp: stepOut_eq [OF cs] Let_def split: if_splits option.splits)
  have f: "indentCount w' = indentCount w"
    if "apply_op x w = Inr w'" "\<not> opensContainer x" "x \<noteq> StepOut" for x w'
    using that
    by (cases x)
       (auto simp: writeFieldName_eq [OF cs] writeNull_eq [OF cs] serializeValue_eq [OF cs]
          addAnnotation_def split: if_splits)
  from a b c e f show ?thesis by blast
qed

theorem C9_indentCount_witness:
  "run [StepIn LIST, StepIn STRUCT, WriteFieldName ''a'', StepIn SEXP]
     (PrettyTextWriter plainSymbol plainNull 2 (Some 2)) =
     Inr (the_writer (run [StepIn LIST, StepIn STRUCT, WriteFieldName ''a'', StepIn SEXP]
       (PrettyTextWriter plainSymbol plainNull 2 (Some 2)))) \<and>
   length (containerContext (the_writer (run [StepIn LIST, StepIn STRUCT, WriteFieldName ''a'', StepIn SEXP]
       (PrettyTextWriter plainSymbol plainNull 2 (Some 2))))) = 4 \<and>
   indentCount (the_writer (run [StepIn LIST, StepIn STRUCT, WriteFieldName ''a'', StepIn SEXP]
       (PrettyTextWriter plainSymbol plainNull 2 (Some 2)))) = 1"
proof -
  have r: "run [StepIn LIST, StepIn STRUCT, WriteFieldName ''a'', StepIn SEXP]
     (PrettyTextWriter plainSymbol plainNull 2 (Some 2)) =
     Inr (the_writer (run [StepIn LIST, StepIn STRUCT, WriteFieldName ''a'', StepIn SEXP]
       (PrettyTextWriter plainSymbol plainNull 2 (Some 2))))"
    by (simp add: eval_defs)
  have l: "length (containerContext (the_writer (run [StepIn LIST, StepIn STRUCT, WriteFieldName ''a'', StepIn SEXP]
       (PrettyTextWriter plainSymbol plainNull 2 (Some 2))))) = 4"
    by (simp add: eval_defs)
  from C9_indentCount [OF r] have "indentCount (the_writer (run [StepIn LIST, StepIn STRUCT, WriteFieldName ''a'', StepIn SEXP]
       (PrettyTextWriter plainSymbol plainNull 2 (Some 2)))) =
      int (length (filter (\<lambda>k. less_number (int k) (Some 2)) [1..<4]))"
    unfolding l by blast
  also have "\<dots> = 1"
    by (simp add: less_number_def upt_rec)
  finally show ?thesis using r l by blast
qed

text \<open>
  Claim C10: when \<^verbatim>\<open>stepOut\<close> fails because the top frame is the top level frame (no container
  is open) or a struct that awaits the value of an announced field, it fails with a
  StructuralError and the writer it leaves behind has lost its top frame: the stack has
  changed although the call reports an error.
\<close>

theorem C10_stepOut_not_atomic:
  assumes "currentContainer w = Some c"
    and "containerType c = None \<or> (containerType c = Some STRUCT \<and> state c = VALUE)"
  shows "\<exists>e. StructuralError e \<and>
           stepOut w = Inl (e, w\<lparr>containerContext := tl (containerContext w)\<rparr>) \<and>
           containerContext w = c # tl (containerContext w) \<and>
           tl (containerContext w) \<noteq> containerContext w"
proof -
  from assms(1) obtain cs where cs: "containerContext w = c # cs"
    by (auto simp: currentContainer_def split: list.splits)
  have t: "tl (containerContext w) = cs"
    by (simp add: cs)
  have ne: "cs \<noteq> c # cs"
    by simp
  from assms(2) consider "containerType c = None"
    | "containerType c = Some STRUCT" "state c = VALUE" by (elim disjE conjE)
  then show ?thesis
  proof cases
    case 1
    then have "stepOut w = Inl (Error ''Can't step out when not in a container'',
        w\<lparr>containerContext := cs\<rparr>)"
      by (simp add: stepOut_eq [OF cs])
    then show ?thesis
      unfolding t using cs ne by (intro exI conjI) (simp_all add: StructuralError_def)
  next
    case 2
    then have "stepOut w = Inl (Error ''Expecting a struct value'', w\<lparr>containerContext := cs\<rparr>)"
      by (simp add: stepOut_eq [OF cs])
    then show ?thesis
      unfolding t using cs ne by (intro exI conjI) (simp_all add: StructuralError_def)
  qed
qed

theorem C10_stepOut_not_atomic_witness:
  "currentContainer (PrettyTextWriter plainSymbol plainNull 2 None) = Some (Context_new None) \<and>
   containerType (Context_new None) = None \<and>
   stepOut (PrettyTextWriter plainSymbol plainNull 2 None) =
     Inl (Error ''Can't step out when not in a container'',
          (PrettyTextWriter plainSymbol plainNull 2 None)\<lparr>containerContext := []\<rparr>)"
proof -
  have h: "currentContainer (PrettyTextWriter plainSymbol plainNull 2 None) = Some (Context_new None)"
    by (simp add: PrettyTextWriter_def currentContainer_def)
  have t: "containerType (Context_new None) = None"
    by (simp add: Context_new_def)
  from C10_stepOut_not_atomic [OF h] t
  have "\<exists>e. stepOut (PrettyTextWriter plainSymbol plainNull 2 None) =
          Inl (e, (PrettyTextWriter plainSymbol plainNull 2 None)
                    \<lparr>containerContext := tl (containerContext (PrettyTextWriter plainSymbol plainNull 2 None))\<rparr>)"
    by blast
  then show ?thesis using h t
    by (auto simp: PrettyTextWriter_def stepOut_def Context_new_def)
qed

end
